theory Spec2Isabelle
  imports
    Main
    "HOL-Library.Char_ord"
    "HOL-Library.List_Lexorder"
    "HOL-Library.Multiset"
    "HOL-Library.AList"
    "HOL-Library.Sublist"
begin

section \<open>YAML documents as Python values\<close>

text \<open>
  What \<open>yaml.load\<close> hands to the program: scalars, sequences and mappings. A mapping is a
  Python dictionary, kept as an association list in insertion order (its keys are strings; the
  first binding of a key is the one the dictionary holds). Floats, timestamps and non-string
  keys are not modelled.
\<close>

datatype yaml =
    YNull
  | YBool bool
  | YInt int
  | YStr string
  | YSeq "yaml list"
  | YMap "(string \<times> yaml) list"

type_synonym pydict = "(string \<times> yaml) list"

text \<open>Python truthiness (\<open>if not x\<close>, \<open>x or default\<close>).\<close>

fun truthy :: "yaml \<Rightarrow> bool" where
  "truthy YNull = False"
| "truthy (YBool b) = b"
| "truthy (YInt i) = (i \<noteq> 0)"
| "truthy (YStr s) = (s \<noteq> [])"
| "truthy (YSeq xs) = (xs \<noteq> [])"
| "truthy (YMap kvs) = (kvs \<noteq> [])"

text \<open>
  \<open>d[k] = v\<close> is \<open>AList.update k v d\<close>: an existing key keeps its position, a new key goes to
  the end. \<open>d.get(k)\<close> is \<open>map_of d k\<close>. \<open>d.update(e)\<close> assigns the items of \<open>e\<close> in order.
\<close>

definition dict_update :: "pydict \<Rightarrow> pydict \<Rightarrow> pydict" where
  "dict_update d e = fold (\<lambda>(k, v). AList.update k v) e d"

definition setdefault :: "pydict \<Rightarrow> string \<Rightarrow> yaml \<Rightarrow> yaml \<times> pydict" where
  "setdefault d k v =
     (case map_of d k of
        Some w \<Rightarrow> (w, d)
      | None \<Rightarrow> (v, AList.update k v d))"

datatype exn =
    FileNotFoundError
  | FileExistsError
  | NotADirectoryError
  | TypeError
  | ValueError
  | AttributeError
  | KeyError

section \<open>The service configuration store (common/config.py)\<close>

subsection \<open>The file system under the configuration path\<close>

text \<open>
  Paths are lists of components below \<open>config_path\<close>, which is the empty path and an existing
  directory. A file holds what \<open>yaml.load\<close> makes of its text, or text that the loader
  refuses with a \<open>YAMLError\<close>.
\<close>

datatype content = Unparseable | Parsed yaml

datatype node = File content | Dir

type_synonym path = "string list"

type_synonym fs = "(path \<times> node) list"

definition exists_path :: "fs \<Rightarrow> path \<Rightarrow> bool" where
  "exists_path t p = (p = [] \<or> map_of t p \<noteq> None)"

definition is_dir :: "fs \<Rightarrow> path \<Rightarrow> bool" where
  "is_dir t p = (p = [] \<or> map_of t p = Some Dir)"

text \<open>\<open>Path.mkdir(exist_ok=True)\<close>, without \<open>parents=True\<close>.\<close>

definition mkdir_exist_ok :: "fs \<Rightarrow> path \<Rightarrow> exn + fs" where
  "mkdir_exist_ok t p =
     (if is_dir t p then Inr t
      else if exists_path t p then Inl FileExistsError
      else if is_dir t (butlast p) then Inr (t @ [(p, Dir)])
      else if exists_path t (butlast p) then Inl NotADirectoryError
      else Inl FileNotFoundError)"

text \<open>
  \<open>os.rename\<close> on POSIX: the source and everything below it moves to the destination, and a
  file that was at the destination is replaced.
\<close>

definition rename :: "fs \<Rightarrow> path \<Rightarrow> path \<Rightarrow> fs" where
  "rename t src dst =
     map (\<lambda>(p, n). (if prefix src p then dst @ drop (length src) p else p, n))
       (filter (\<lambda>(p, n). p \<noteq> dst) t)"

text \<open>
  \<open>shutil.move(src, dst)\<close>: into \<open>dst\<close> when that is a directory (failing when the name is taken
  there), else a rename; a directory cannot replace a file. \<open>None\<close> is the \<open>OSError\<close>.
\<close>

definition shutil_move :: "fs \<Rightarrow> path \<Rightarrow> path \<Rightarrow> fs option" where
  "shutil_move t src dst =
     (let real_dst = (if is_dir t dst then dst @ [last src] else dst) in
      if is_dir t dst \<and> exists_path t real_dst then None
      else if is_dir t src \<and> exists_path t real_dst then None
      else Some (rename t src real_dst))"

text \<open>Shell patterns on a file name: \<open>*.yml\<close>, \<open>*.yaml\<close> and \<open>*.y*ml\<close>.\<close>

definition endswith :: "string \<Rightarrow> string \<Rightarrow> bool" where
  "endswith s suf = (length suf \<le> length s \<and> drop (length s - length suf) s = suf)"

fun matches_y_ml :: "string \<Rightarrow> bool" where
  "matches_y_ml [] = False"
| "matches_y_ml (c # cs) =
     ((c = CHR ''.'' \<and> (case cs of [] \<Rightarrow> False | d # rest \<Rightarrow> d = CHR ''y'' \<and> endswith rest ''ml''))
      \<or> matches_y_ml cs)"

text \<open>\<open>dir.glob(pattern)\<close>: the entries directly inside \<open>dir\<close> whose name matches.\<close>

definition glob :: "fs \<Rightarrow> path \<Rightarrow> (string \<Rightarrow> bool) \<Rightarrow> path list" where
  "glob t d pat = filter (\<lambda>p. p \<noteq> [] \<and> butlast p = d \<and> pat (last p)) (map fst t)"

subsection \<open>load_service_config\<close>

datatype error_msg = Error_moving string | Error_loading string

definition group_vars_path :: path where
  "group_vars_path = [''group_vars'']"

definition legacy_files :: "string \<Rightarrow> path list" where
  "legacy_files service_name =
     (if service_name = ''all''
      then [group_vars_path @ [''all.yml''], group_vars_path @ [''all.yaml'']]
      else [group_vars_path @ [service_name @ ''.yml''],
            group_vars_path @ [service_name @ ''.yaml''],
            group_vars_path @ [service_name @ ''_all.yml''],
            group_vars_path @ [service_name @ ''_all.yaml'']])"

definition initial_new_name :: "string \<Rightarrow> string option" where
  "initial_new_name service_name = (if service_name = ''all'' then Some ''vars.yml'' else None)"

text \<open>
  The migration loop. \<open>new_name\<close> is the loop's variable of that name: it is assigned at the
  first legacy file that exists (\<open>if not new_name\<close>) and keeps that value in the iterations
  after it.
\<close>

fun migrate :: "fs \<Rightarrow> path \<Rightarrow> path list \<Rightarrow> string option \<Rightarrow> error_msg option \<times> fs" where
  "migrate t service_dir [] new_name = (None, t)"
| "migrate t service_dir (legacy_file # rest) new_name =
     (if exists_path t legacy_file then
        (let name = (case new_name of None \<Rightarrow> ''migrated_'' @ last legacy_file | Some n \<Rightarrow> n) in
         case shutil_move t legacy_file (service_dir @ [name]) of
           None \<Rightarrow> (Some (Error_moving (last legacy_file)), t)
         | Some t' \<Rightarrow> migrate t' service_dir rest (Some name))
      else migrate t service_dir rest new_name)"

text \<open>
  The list the source sorts so that \<open>wizzard.yml\<close> comes last (a stable sort on the key
  \<open>p.name == "wizzard.yml"\<close>). The loading loop does not read it.
\<close>

definition config_files :: "fs \<Rightarrow> path \<Rightarrow> path list" where
  "config_files t service_dir =
     sort_key (\<lambda>p. last p = ''wizzard.yml'')
       (glob t service_dir (\<lambda>n. endswith n ''.yml'') @ glob t service_dir (\<lambda>n. endswith n ''.yaml''))"

text \<open>
  \<open>merged_config.update(data)\<close> with a document that is not a mapping reads it as a sequence of
  key-value pairs. Each element has to be iterable (a number, a truth value or null is a
  \<open>TypeError\<close>) and of length two (anything else is a \<open>ValueError\<close>): a sequence of two values
  is the key and the value, a string of two characters is the one and the other, a mapping
  of two keys is its first and its second key. A key that is a sequence or a mapping
  cannot be hashed, a \<open>TypeError\<close>. A key that is a number, a truth value or null would enter
  the dictionary as a key that is not a string; such dictionaries are not modelled, and
  the pair is given as the \<open>TypeError\<close> too.
\<close>

fun update_item :: "yaml \<Rightarrow> exn + (string \<times> yaml)" where
  "update_item (YSeq xs) =
     (case xs of
        [k, v] \<Rightarrow> (case k of YStr s \<Rightarrow> Inr (s, v) | _ \<Rightarrow> Inl TypeError)
      | _ \<Rightarrow> Inl ValueError)"
| "update_item (YStr s) =
     (case s of
        [a, b] \<Rightarrow> Inr ([a], YStr [b])
      | _ \<Rightarrow> Inl ValueError)"
| "update_item (YMap d) =
     (case d of
        [(k1, v1), (k2, v2)] \<Rightarrow> Inr (k1, YStr k2)
      | _ \<Rightarrow> Inl ValueError)"
| "update_item v = Inl TypeError"

fun update_items :: "yaml list \<Rightarrow> exn + pydict" where
  "update_items [] = Inr []"
| "update_items (x # xs) =
     (case update_item x of
        Inl e \<Rightarrow> Inl e
      | Inr kv \<Rightarrow> (case update_items xs of Inl e \<Rightarrow> Inl e | Inr kvs \<Rightarrow> Inr (kv # kvs)))"

text \<open>
  The loading loop over \<open>sorted(service_dir_path.glob("*.y*ml"))\<close>. Opening a directory is
  an \<open>OSError\<close> and is caught like a \<open>YAMLError\<close>. A document that is empty, null or otherwise
  falsy counts as \<open>{}\<close>. A string iterates over its characters, which have length one, and
  a number or a truth value does not iterate; what \<open>update\<close> raises is not caught.
\<close>

fun merge_files :: "fs \<Rightarrow> path list \<Rightarrow> pydict \<Rightarrow> exn + (pydict \<times> error_msg option)" where
  "merge_files t [] merged_config = Inr (merged_config, None)"
| "merge_files t (file # files) merged_config =
     (case map_of t file of
        None \<Rightarrow> merge_files t files merged_config
      | Some Dir \<Rightarrow> Inr ([], Some (Error_loading (last file)))
      | Some (File Unparseable) \<Rightarrow> Inr ([], Some (Error_loading (last file)))
      | Some (File (Parsed v)) \<Rightarrow>
          (if \<not> truthy v then merge_files t files (dict_update merged_config [])
           else case v of
             YMap d \<Rightarrow> merge_files t files (dict_update merged_config d)
           | YSeq xs \<Rightarrow>
               (case update_items xs of
                  Inl e \<Rightarrow> Inl e
                | Inr d \<Rightarrow> merge_files t files (dict_update merged_config d))
           | YStr s \<Rightarrow> Inl ValueError
           | _ \<Rightarrow> Inl TypeError))"

definition load_service_config :: "fs \<Rightarrow> string \<Rightarrow> (exn + (pydict \<times> error_msg option)) \<times> fs" where
  "load_service_config t service_name =
     (let service_dir_path = group_vars_path @ [service_name] in
      case mkdir_exist_ok t service_dir_path of
        Inl e \<Rightarrow> (Inl e, t)
      | Inr t1 \<Rightarrow>
          (case migrate t1 service_dir_path (legacy_files service_name) (initial_new_name service_name) of
             (Some err, t2) \<Rightarrow> (Inr ([], Some err), t2)
           | (None, t2) \<Rightarrow>
               (merge_files t2 (sort (glob t2 service_dir_path matches_y_ml)) [], t2)))"

text \<open>\<open>save_service_config\<close> writes the data to \<open>wizzard.yml\<close> of the service directory.\<close>

definition save_service_config :: "fs \<Rightarrow> string \<Rightarrow> pydict \<Rightarrow> fs" where
  "save_service_config t service_name data =
     (let d = group_vars_path @ [service_name];
          t1 = (if is_dir t group_vars_path then t else t @ [(group_vars_path, Dir)]);
          t2 = (if is_dir t1 d then t1 else t1 @ [(d, Dir)])
      in AList.update (d @ [''wizzard.yml'']) (File (Parsed (YMap data))) t2)"

section \<open>Python strings and the address library\<close>

text \<open>
  Characters are code points below 256. \<open>is_space\<close> is \<open>str.isspace\<close> there, \<open>strip\<close> is
  \<open>str.strip()\<close>, \<open>split_on c\<close> is \<open>str.split(c)\<close> and \<open>splitlines\<close> is \<open>str.splitlines()\<close>.
\<close>

definition is_space :: "char \<Rightarrow> bool" where
  "is_space c = (c \<in> set [CHR 0x09, CHR 0x0A, CHR 0x0B, CHR 0x0C, CHR 0x0D, CHR 0x1C, CHR 0x1D,
                            CHR 0x1E, CHR 0x1F, CHR 0x20, CHR 0x85, CHR 0xA0])"

definition strip :: "string \<Rightarrow> string" where
  "strip s = rev (dropWhile is_space (rev (dropWhile is_space s)))"

fun split_on :: "char \<Rightarrow> string \<Rightarrow> string list" where
  "split_on c [] = [[]]"
| "split_on c (x # xs) =
     (if x = c then [] # split_on c xs
      else (case split_on c xs of [] \<Rightarrow> [[x]] | w # ws \<Rightarrow> (x # w) # ws))"

definition is_linebreak :: "char \<Rightarrow> bool" where
  "is_linebreak c = (c \<in> set [CHR 0x0A, CHR 0x0B, CHR 0x0C, CHR 0x0D, CHR 0x1C, CHR 0x1D,
                                CHR 0x1E, CHR 0x85])"

fun splitlines :: "string \<Rightarrow> string list" where
  "splitlines [] = []"
| "splitlines [x] = (if is_linebreak x then [[]] else [[x]])"
| "splitlines (x # y # ys) =
     (if x = CHR 0x0D \<and> y = CHR 0x0A then [] # splitlines ys
      else if is_linebreak x then [] # splitlines (y # ys)
      else (case splitlines (y # ys) of [] \<Rightarrow> [[x]] | w # ws \<Rightarrow> (x # w) # ws))"

text \<open>
  The three operations of Python's \<open>ipaddress\<close> module that the program calls, as
  parameters: \<open>ip_network(x, strict=False)\<close> on a value of the document or of the form,
  \<open>ip_address(s)\<close> on a string, and \<open>ip in network\<close>. \<open>None\<close> is the \<open>ValueError\<close>. The
  theorems hold for every such library, IPv4 or IPv6.
\<close>

record ('n, 'a) ipaddress =
  ip_network :: "yaml \<Rightarrow> 'n option"
  ip_address :: "string \<Rightarrow> 'a option"
  contains :: "'n \<Rightarrow> 'a \<Rightarrow> bool"

text \<open>
  An instance that reads IPv4 dotted quads with an optional decimal prefix length, used to
  run the definitions at concrete inputs: an address is its 32-bit number, a network its
  masked base address and prefix length.
\<close>

definition digit_val :: "char \<Rightarrow> nat option" where
  "digit_val c =
     map_of [(CHR ''0'', 0), (CHR ''1'', 1), (CHR ''2'', 2), (CHR ''3'', 3), (CHR ''4'', 4),
             (CHR ''5'', 5), (CHR ''6'', 6), (CHR ''7'', 7), (CHR ''8'', 8), (CHR ''9'', 9)] c"

fun decimal_acc :: "nat \<Rightarrow> string \<Rightarrow> nat option" where
  "decimal_acc n [] = Some n"
| "decimal_acc n (c # cs) =
     (case digit_val c of None \<Rightarrow> None | Some k \<Rightarrow> decimal_acc (10 * n + k) cs)"

definition decimal :: "string \<Rightarrow> nat option" where
  "decimal s = (if s = [] then None else decimal_acc 0 s)"

definition octet :: "string \<Rightarrow> nat option" where
  "octet s =
     (if 3 < length s \<or> (1 < length s \<and> take 1 s = ''0'') then None
      else case decimal s of
        None \<Rightarrow> None
      | Some n \<Rightarrow> if n \<le> 255 then Some n else None)"

definition ipv4_address :: "string \<Rightarrow> int option" where
  "ipv4_address s =
     (case map octet (split_on CHR ''.'' s) of
        [Some a, Some b, Some c, Some d] \<Rightarrow>
          Some (((int a * 256 + int b) * 256 + int c) * 256 + int d)
      | _ \<Rightarrow> None)"

definition ipv4_network :: "yaml \<Rightarrow> (int \<times> nat) option" where
  "ipv4_network v =
     (case v of
        YStr s \<Rightarrow>
          (case split_on CHR ''/'' s of
             [a] \<Rightarrow> map_option (\<lambda>x. (x, 32)) (ipv4_address a)
           | [a, p] \<Rightarrow>
               (case (ipv4_address a, decimal p) of
                  (Some x, Some n) \<Rightarrow>
                    if n \<le> 32 then Some (x - x mod 2 ^ (32 - n), n) else None
                | _ \<Rightarrow> None)
           | _ \<Rightarrow> None)
      | _ \<Rightarrow> None)"

definition ipv4_contains :: "int \<times> nat \<Rightarrow> int \<Rightarrow> bool" where
  "ipv4_contains network a =
     (a div 2 ^ (32 - snd network) = fst network div 2 ^ (32 - snd network))"

definition ipv4 :: "(int \<times> nat, int) ipaddress" where
  "ipv4 = \<lparr>ip_network = ipv4_network, ip_address = ipv4_address, contains = ipv4_contains\<rparr>"

section \<open>The network screens (screens/networks.py)\<close>

subsection \<open>AddEditCidrNetworkScreen.on_save\<close>

text \<open>
  An entry of \<open>cidr_networks\<close>: the dictionary \<open>{"cidr": value, "used_ips": [...]}\<close>.
\<close>

record cidr_entry =
  cidr :: yaml
  used_ips :: "string list"

text \<open>The messages of the error widget, with the strings they quote.\<close>

datatype cidr_error =
    Name_or_value_empty
  | Netmask_missing
  | Not_a_valid_cidr string
  | Range_outside_cidr string string
  | Invalid_ip_in_used_ips string

text \<open>
  The validation loop over \<open>used_ips_list\<close>. \<open>parts[0]\<close> and \<open>parts[-1]\<close> are the first and
  the last piece of the range; \<open>ip_address\<close> raising \<open>ValueError\<close> on either ends the loop
  with the message that quotes the string it refused.
\<close>

definition range_parts :: "string \<Rightarrow> string list" where
  "range_parts ip_range = map strip (split_on CHR '','' ip_range)"

fun check_ranges :: "('n, 'a) ipaddress \<Rightarrow> 'n \<Rightarrow> string \<Rightarrow> string list \<Rightarrow> cidr_error option" where
  "check_ranges lib network v [] = None"
| "check_ranges lib network v (ip_range # rest) =
     (let parts = range_parts ip_range in
      case ip_address lib (hd parts) of
        None \<Rightarrow> Some (Invalid_ip_in_used_ips (hd parts))
      | Some start_ip \<Rightarrow>
          (case ip_address lib (last parts) of
             None \<Rightarrow> Some (Invalid_ip_in_used_ips (last parts))
           | Some end_ip \<Rightarrow>
               if \<not> contains lib network start_ip \<or> \<not> contains lib network end_ip
               then Some (Range_outside_cidr ip_range v)
               else check_ranges lib network v rest))"

text \<open>\<open>[line.strip() for line in text.splitlines() if line.strip()]\<close>.\<close>

definition used_ips_lines :: "string \<Rightarrow> string list" where
  "used_ips_lines cidr_used_ips = filter (\<lambda>line. line \<noteq> []) (map strip (splitlines cidr_used_ips))"

text \<open>
  \<open>on_save\<close> reads the three widgets. \<open>Inl\<close> is a message shown in the dialog, which stays
  open; \<open>Inr\<close> is the pair the dialog is dismissed with.
\<close>

definition on_save ::
  "('n, 'a) ipaddress \<Rightarrow> string \<Rightarrow> string \<Rightarrow> string \<Rightarrow> cidr_error + (string \<times> cidr_entry)" where
  "on_save lib cidr_name cidr_value cidr_used_ips =
     (let name = strip cidr_name;
          v = strip cidr_value;
          used_ips_list = used_ips_lines cidr_used_ips
      in if name = [] \<or> v = [] then Inl Name_or_value_empty
         else if CHR ''/'' \<notin> set v then Inl Netmask_missing
         else case ip_network lib (YStr v) of
           None \<Rightarrow> Inl (Not_a_valid_cidr v)
         | Some network \<Rightarrow>
             (case check_ranges lib network v used_ips_list of
                Some e \<Rightarrow> Inl e
              | None \<Rightarrow> Inr (name, \<lparr>cidr = YStr v, used_ips = used_ips_list\<rparr>)))"

subsection \<open>The validation rule in the words of the specification\<close>

text \<open>
  A used range is acceptable for a network when both of its endpoints parse and lie in the
  network; a form is valid when name and cidr are non-empty, the cidr has a \<open>/\<close>, the cidr
  parses, and every used range is acceptable for it. An error fits a form when it is the
  message of the first rule the form breaks, quoting the cidr, the range or the address at
  fault.
\<close>

definition range_ok :: "('n, 'a) ipaddress \<Rightarrow> 'n \<Rightarrow> string \<Rightarrow> bool" where
  "range_ok lib network r =
     (\<exists>a b. ip_address lib (hd (range_parts r)) = Some a \<and>
            ip_address lib (last (range_parts r)) = Some b \<and>
            contains lib network a \<and> contains lib network b)"

definition valid_cidr_form :: "('n, 'a) ipaddress \<Rightarrow> string \<Rightarrow> string \<Rightarrow> string \<Rightarrow> bool" where
  "valid_cidr_form lib cidr_name cidr_value cidr_used_ips =
     (strip cidr_name \<noteq> [] \<and> strip cidr_value \<noteq> [] \<and> CHR ''/'' \<in> set (strip cidr_value) \<and>
      (\<exists>network. ip_network lib (YStr (strip cidr_value)) = Some network \<and>
         (\<forall>r \<in> set (used_ips_lines cidr_used_ips). range_ok lib network r)))"

definition names_offender ::
  "('n, 'a) ipaddress \<Rightarrow> 'n \<Rightarrow> string \<Rightarrow> string list \<Rightarrow> cidr_error \<Rightarrow> bool" where
  "names_offender lib network v rs e =
     (\<exists>r \<in> set rs. \<not> range_ok lib network r \<and>
        (e = Range_outside_cidr r v \<or>
         (e = Invalid_ip_in_used_ips (hd (range_parts r)) \<and>
            ip_address lib (hd (range_parts r)) = None) \<or>
         (e = Invalid_ip_in_used_ips (last (range_parts r)) \<and>
            ip_address lib (last (range_parts r)) = None)))"

definition error_fits :: "('n, 'a) ipaddress \<Rightarrow> string \<Rightarrow> string \<Rightarrow> string \<Rightarrow> cidr_error \<Rightarrow> bool" where
  "error_fits lib cidr_name cidr_value cidr_used_ips e =
     (if strip cidr_name = [] \<or> strip cidr_value = [] then e = Name_or_value_empty
      else if CHR ''/'' \<notin> set (strip cidr_value) then e = Netmask_missing
      else case ip_network lib (YStr (strip cidr_value)) of
             None \<Rightarrow> e = Not_a_valid_cidr (strip cidr_value)
           | Some network \<Rightarrow>
               names_offender lib network (strip cidr_value) (used_ips_lines cidr_used_ips) e)"

subsection \<open>The state of NetworkScreen\<close>

text \<open>
  The three attributes the operations read and write: the baseline \<open>initial_data\<close> (a deep
  copy of the loaded document), and the two collections derived from it. The file
  \<open>openstack_user_config.yml\<close> is \<open>None\<close> when it does not exist.
\<close>

type_synonym cidrs = "(string \<times> cidr_entry) list"

record screen =
  initial_data :: yaml
  provider_networks :: yaml
  cidr_networks :: cidrs

definition new_screen :: screen where
  "new_screen = \<lparr>initial_data = YMap [], provider_networks = YSeq [], cidr_networks = []\<rparr>"

text \<open>The dictionary a comprehension builds from a list of items.\<close>

definition dict_of :: "('k \<times> 'v) list \<Rightarrow> ('k \<times> 'v) list" where
  "dict_of items = fold (\<lambda>(k, v). AList.update k v) items []"

subsection \<open>load_configs\<close>

datatype load_outcome =
    File_not_found
  | Error_loading_yaml
  | Load_raised exn
  | Loaded

text \<open>\<open>d.get(k, default)\<close>.\<close>

definition get_default :: "pydict \<Rightarrow> string \<Rightarrow> yaml \<Rightarrow> yaml" where
  "get_default d k v = (case map_of d k of None \<Rightarrow> v | Some w \<Rightarrow> w)"

text \<open>What a \<open>for\<close> loop (or \<open>sorted\<close>) iterates over; \<open>None\<close> is the \<open>TypeError\<close>.\<close>

fun py_iter :: "yaml \<Rightarrow> yaml list option" where
  "py_iter (YSeq xs) = Some xs"
| "py_iter (YStr s) = Some (map (\<lambda>c. YStr [c]) s)"
| "py_iter (YMap kvs) = Some (map (\<lambda>kv. YStr (fst kv)) kvs)"
| "py_iter v = None"

text \<open>\<open>cidr_net_objects\<close>: the blocks whose cidr parses, in the order of the mapping.\<close>

fun cidr_net_objects :: "('n, 'a) ipaddress \<Rightarrow> pydict \<Rightarrow> (string \<times> 'n) list" where
  "cidr_net_objects lib [] = []"
| "cidr_net_objects lib ((name, cidr_str) # rest) =
     (case ip_network lib cidr_str of
        None \<Rightarrow> cidr_net_objects lib rest
      | Some network \<Rightarrow> (name, network) # cidr_net_objects lib rest)"

text \<open>The inner loop: the first block whose network contains the address.\<close>

fun find_network :: "('n, 'a) ipaddress \<Rightarrow> (string \<times> 'n) list \<Rightarrow> 'a \<Rightarrow> string option" where
  "find_network lib [] ip = None"
| "find_network lib ((net_name, network) # rest) ip =
     (if contains lib network ip then Some net_name else find_network lib rest ip)"

text \<open>\<open>processed_cidrs[net_name]["used_ips"].append(ip_range_str)\<close>.\<close>

definition append_used_ip :: "string \<Rightarrow> string \<Rightarrow> cidrs \<Rightarrow> cidrs" where
  "append_used_ip net_name ip_range_str cs =
     AList.map_entry net_name (\<lambda>e. e\<lparr>used_ips := used_ips e @ [ip_range_str]\<rparr>) cs"

text \<open>\<open>ip_range_str.split(',')[0].strip()\<close>: the low endpoint of a range.\<close>

definition first_ip_str :: "string \<Rightarrow> string" where
  "first_ip_str ip_range_str = strip (hd (split_on CHR '','' ip_range_str))"

text \<open>
  The loop over \<open>used_ips_raw\<close>. An item that is not a string has no \<open>split\<close>: the
  \<open>AttributeError\<close> is not a \<open>ValueError\<close> and leaves the loop. A string whose first address
  does not parse, or lies in no block, is logged and skipped.
\<close>

fun associate ::
  "('n, 'a) ipaddress \<Rightarrow> (string \<times> 'n) list \<Rightarrow> yaml list \<Rightarrow> cidrs \<Rightarrow> exn + cidrs" where
  "associate lib nets [] cs = Inr cs"
| "associate lib nets (YStr ip_range_str # rest) cs =
     (case ip_address lib (first_ip_str ip_range_str) of
        None \<Rightarrow> associate lib nets rest cs
      | Some ip \<Rightarrow>
          (case find_network lib nets ip of
             None \<Rightarrow> associate lib nets rest cs
           | Some net_name \<Rightarrow> associate lib nets rest (append_used_ip net_name ip_range_str cs)))"
| "associate lib nets (v # rest) cs = Inl AttributeError"

definition processed_cidrs :: "pydict \<Rightarrow> cidrs" where
  "processed_cidrs cidr_networks_raw =
     dict_of (map (\<lambda>(name, v). (name, \<lparr>cidr = v, used_ips = []\<rparr>)) cidr_networks_raw)"

text \<open>
  \<open>load_configs\<close> on the file and the screen. The baseline is assigned before the document
  is taken apart, so it is already replaced when a later line raises.
\<close>

definition load_configs ::
  "('n, 'a) ipaddress \<Rightarrow> content option \<Rightarrow> screen \<Rightarrow> load_outcome \<times> screen" where
  "load_configs lib user_config_file s =
     (case user_config_file of
        None \<Rightarrow> (File_not_found, s)
      | Some Unparseable \<Rightarrow> (Error_loading_yaml, s)
      | Some (Parsed data) \<Rightarrow>
          (let s1 = s\<lparr>initial_data := data\<rparr> in
           case data of
             YMap d \<Rightarrow>
               (case get_default d ''global_overrides'' (YMap []) of
                  YMap global_overrides \<Rightarrow>
                    (let provider_networks_raw = get_default global_overrides ''provider_networks'' (YSeq []);
                         used_ips_raw = get_default d ''used_ips'' (YSeq [])
                     in case get_default d ''cidr_networks'' (YMap []) of
                          YMap cidr_networks_raw \<Rightarrow>
                            (case py_iter used_ips_raw of
                               None \<Rightarrow> (Load_raised TypeError, s1)
                             | Some items \<Rightarrow>
                                 (case associate lib (cidr_net_objects lib cidr_networks_raw) items
                                         (processed_cidrs cidr_networks_raw) of
                                    Inl e \<Rightarrow> (Load_raised e, s1)
                                  | Inr cs \<Rightarrow>
                                      (Loaded, s1\<lparr>provider_networks := provider_networks_raw,
                                                  cidr_networks := cs\<rparr>)))
                        | _ \<Rightarrow> (Load_raised AttributeError, s1))
                | _ \<Rightarrow> (Load_raised AttributeError, s1))
           | _ \<Rightarrow> (Load_raised AttributeError, s1)))"

subsection \<open>has_unsaved_changes\<close>

text \<open>
  Python's \<open>==\<close> on documents: sequences are equal item by item, dictionaries when they have
  the same keys with equal values, in any order; \<open>True\<close> equals \<open>1\<close>.
\<close>

function py_eq :: "yaml \<Rightarrow> yaml \<Rightarrow> bool" where
  "py_eq YNull y = (y = YNull)"
| "py_eq (YBool b) y =
     (case y of YBool c \<Rightarrow> b = c | YInt j \<Rightarrow> j = (if b then 1 else 0) | _ \<Rightarrow> False)"
| "py_eq (YInt i) y =
     (case y of YInt j \<Rightarrow> i = j | YBool c \<Rightarrow> i = (if c then 1 else 0) | _ \<Rightarrow> False)"
| "py_eq (YStr s) y = (y = YStr s)"
| "py_eq (YSeq xs) y =
     (case y of
        YSeq ys \<Rightarrow> length xs = length ys \<and> list_all (\<lambda>(a, b). py_eq a b) (zip xs ys)
      | _ \<Rightarrow> False)"
| "py_eq (YMap kvs) y =
     (case y of
        YMap lws \<Rightarrow>
          set (map fst kvs) = set (map fst lws) \<and>
          list_all (\<lambda>k. case map_of kvs k of
                          None \<Rightarrow> False
                        | Some v \<Rightarrow> (case map_of lws k of None \<Rightarrow> False | Some w \<Rightarrow> py_eq v w))
            (map fst kvs)
      | _ \<Rightarrow> False)"
  by pat_completeness auto
termination
proof (relation "measure (\<lambda>(x, y). size x)")
  show "wf (measure (\<lambda>(x, y). size x))" by simp
next
  fix xs :: "yaml list" and y ys z a b
  assume "z \<in> set (zip xs ys)" and "(a, b) = z"
  then have "a \<in> set xs" by (metis set_zip_leftD)
  then have "size a \<le> size_list size xs" by (simp add: size_list_estimation')
  then show "((a, b), (YSeq xs, y)) \<in> measure (\<lambda>(x, y). size x)" by simp
next
  fix kvs :: "(string \<times> yaml) list" and y lws k v w
  assume "map_of kvs k = Some v"
  then have "(k, v) \<in> set kvs" by (rule map_of_SomeD)
  then have "size_prod (\<lambda>_. 0) size (k, v) \<le> size_list (size_prod (\<lambda>_. 0) size) kvs"
    by (simp add: size_list_estimation')
  then show "((v, w), (YMap kvs, y)) \<in> measure (\<lambda>(x, y). size x)" by simp
qed

text \<open>
  \<open>sorted(v)\<close>. Strings sort by code point; \<open>None\<close> is the \<open>TypeError\<close> of a value that cannot
  be iterated or of items that cannot be compared. Python also orders items of some other
  types (nested sequences, booleans among integers): those are not modelled.
\<close>

fun the_strings :: "yaml list \<Rightarrow> string list option" where
  "the_strings [] = Some []"
| "the_strings (YStr s # rest) = map_option (\<lambda>ss. s # ss) (the_strings rest)"
| "the_strings (v # rest) = None"

fun the_ints :: "yaml list \<Rightarrow> int list option" where
  "the_ints [] = Some []"
| "the_ints (YInt i # rest) = map_option (\<lambda>js. i # js) (the_ints rest)"
| "the_ints (v # rest) = None"

definition py_sorted :: "yaml \<Rightarrow> yaml list option" where
  "py_sorted v =
     (case py_iter v of
        None \<Rightarrow> None
      | Some items \<Rightarrow>
          (case the_strings items of
             Some ss \<Rightarrow> Some (map YStr (sort ss))
           | None \<Rightarrow>
               (case the_ints items of
                  Some js \<Rightarrow> Some (map YInt (sort js))
                | None \<Rightarrow> if length items \<le> 1 then Some items else None)))"

text \<open>The document's two keys rebuilt from the derived collections.\<close>

definition current_cidrs :: "cidrs \<Rightarrow> pydict" where
  "current_cidrs cs = dict_of (map (\<lambda>(name, data). (name, cidr data)) cs)"

definition current_used_ips :: "cidrs \<Rightarrow> string list" where
  "current_used_ips cs = concat (map (\<lambda>(name, data). used_ips data) cs)"

text \<open>
  \<open>has_unsaved_changes\<close>. Item assignment on a baseline that is not a dictionary, or on a
  \<open>global_overrides\<close> that is not one, raises \<open>TypeError\<close>.
\<close>

definition has_unsaved_changes :: "screen \<Rightarrow> exn + bool" where
  "has_unsaved_changes s =
     (if \<not> truthy (initial_data s) then Inr False
      else case initial_data s of
        YMap d \<Rightarrow>
          (let c1 = AList.update ''cidr_networks'' (YMap (current_cidrs (cidr_networks s))) d;
               c2 = AList.update ''used_ips''
                      (YSeq (map YStr (sort (current_used_ips (cidr_networks s))))) c1
           in case setdefault c2 ''global_overrides'' (YMap []) of
                (YMap g, c3) \<Rightarrow>
                  (let current_data =
                         AList.update ''global_overrides''
                           (YMap (AList.update ''provider_networks'' (provider_networks s) g)) c3
                   in case map_of d ''used_ips'' of
                        None \<Rightarrow>
                          Inr (\<not> py_eq (YMap (AList.update ''used_ips'' (YSeq []) d))
                                      (YMap current_data))
                      | Some YNull \<Rightarrow>
                          Inr (\<not> py_eq (YMap (AList.update ''used_ips'' (YSeq []) d))
                                      (YMap current_data))
                      | Some u \<Rightarrow>
                          (case py_sorted u of
                             None \<Rightarrow> Inl TypeError
                           | Some us \<Rightarrow>
                               Inr (\<not> py_eq (YMap (AList.update ''used_ips'' (YSeq us) d))
                                           (YMap current_data))))
              | _ \<Rightarrow> Inl TypeError)
      | _ \<Rightarrow> Inl TypeError)"

subsection \<open>The mutations of the derived collections\<close>

text \<open>
  The handlers of the add, edit and delete buttons, each applied to what its dialog was
  dismissed with (\<open>None\<close> when cancelled or when \<open>on_save\<close> kept the dialog open).
\<close>

definition store_cidr_info :: "(string \<times> cidr_entry) option \<Rightarrow> screen \<Rightarrow> screen" where
  "store_cidr_info cidr_info s =
     (case cidr_info of
        None \<Rightarrow> s
      | Some (name, data) \<Rightarrow> s\<lparr>cidr_networks := AList.update name data (cidr_networks s)\<rparr>)"

definition submit_cidr_form ::
  "('n, 'a) ipaddress \<Rightarrow> string \<Rightarrow> string \<Rightarrow> string \<Rightarrow> screen \<Rightarrow> cidr_error option \<times> screen" where
  "submit_cidr_form lib cidr_name cidr_value cidr_used_ips s =
     (case on_save lib cidr_name cidr_value cidr_used_ips of
        Inl e \<Rightarrow> (Some e, s)
      | Inr info \<Rightarrow> (None, store_cidr_info (Some info) s))"

definition delete_cidr :: "string \<Rightarrow> screen \<Rightarrow> screen" where
  "delete_cidr cidr_name s = s\<lparr>cidr_networks := AList.delete cidr_name (cidr_networks s)\<rparr>"

definition add_provider_network :: "yaml \<Rightarrow> screen \<Rightarrow> screen" where
  "add_provider_network new_net_info s =
     (case provider_networks s of
        YSeq nets \<Rightarrow> s\<lparr>provider_networks := YSeq (nets @ [new_net_info])\<rparr>
      | _ \<Rightarrow> s)"

definition edit_provider_network :: "nat \<Rightarrow> yaml \<Rightarrow> screen \<Rightarrow> screen" where
  "edit_provider_network index updated_net_info s =
     (case provider_networks s of
        YSeq nets \<Rightarrow>
          if index < length nets then s\<lparr>provider_networks := YSeq (nets[index := updated_net_info])\<rparr>
          else s
      | _ \<Rightarrow> s)"

definition delete_provider_network :: "nat \<Rightarrow> screen \<Rightarrow> screen" where
  "delete_provider_network index s =
     (case provider_networks s of
        YSeq nets \<Rightarrow>
          if index < length nets then s\<lparr>provider_networks := YSeq (take index nets @ drop (Suc index) nets)\<rparr>
          else s
      | _ \<Rightarrow> s)"

text \<open>The screens a session can reach from \<open>s0\<close> by these mutations.\<close>

inductive reachable :: "('n, 'a) ipaddress \<Rightarrow> screen \<Rightarrow> screen \<Rightarrow> bool" for lib s0 where
  start: "reachable lib s0 s0"
| cidr_form: "reachable lib s0 s \<Longrightarrow> reachable lib s0 (snd (submit_cidr_form lib n v u s))"
| cidr_deleted: "reachable lib s0 s \<Longrightarrow> reachable lib s0 (delete_cidr n s)"
| net_added: "reachable lib s0 s \<Longrightarrow> reachable lib s0 (add_provider_network x s)"
| net_edited: "reachable lib s0 s \<Longrightarrow> reachable lib s0 (edit_provider_network i x s)"
| net_deleted: "reachable lib s0 s \<Longrightarrow> reachable lib s0 (delete_provider_network i s)"

subsection \<open>Leaving the screen\<close>

datatype navigation = Confirm_exit | Pop_screen | Exit_app | Stay

definition action_pop_screen :: "screen \<Rightarrow> string \<Rightarrow> exn + navigation" where
  "action_pop_screen s action =
     (case has_unsaved_changes s of
        Inl e \<Rightarrow> Inl e
      | Inr True \<Rightarrow> Inr Confirm_exit
      | Inr False \<Rightarrow>
          Inr (if action = ''pop'' then Pop_screen
               else if action = ''quit'' then Exit_app
               else Stay))"

subsection \<open>The objects of a save\<close>

text \<open>
  Lines 594 to 607 of \<open>action_save_configs\<close> work on objects, not on values: the mapping under
  \<open>cidr_networks\<close> is entered a second time under \<open>global_overrides\<close>, given an anchor, and
  then emptied and refilled in place. The store is a list of mapping objects, an address is
  an index into it, and a value refers to a mapping by its address. An object read by the
  round-trip loader is a \<open>CommentedMap\<close> (\<open>round_trip\<close>), which carries the anchor
  \<open>(name, always_dump)\<close>; a plain \<open>{}\<close> has neither.
\<close>

type_synonym addr = nat

datatype pyval =
    PNull
  | PBool bool
  | PInt int
  | PStr string
  | PList "pyval list"
  | PRef addr

record pyobj =
  entries :: "(string \<times> pyval) list"
  anchor :: "(string \<times> bool) option"
  round_trip :: bool

type_synonym heap = "pyobj list"

text \<open>\<open>d[k]\<close> and \<open>d[k] = v\<close>; subscripting what is not a mapping is a \<open>TypeError\<close>.\<close>

definition getitem :: "heap \<Rightarrow> pyval \<Rightarrow> string \<Rightarrow> exn + pyval" where
  "getitem h d k =
     (case d of
        PRef a \<Rightarrow>
          if a < length h
          then (case map_of (entries (h ! a)) k of None \<Rightarrow> Inl KeyError | Some v \<Rightarrow> Inr v)
          else Inl TypeError
      | _ \<Rightarrow> Inl TypeError)"

definition setitem :: "heap \<Rightarrow> pyval \<Rightarrow> string \<Rightarrow> pyval \<Rightarrow> exn + heap" where
  "setitem h d k v =
     (case d of
        PRef a \<Rightarrow>
          if a < length h
          then Inr (h[a := (h ! a)\<lparr>entries := AList.update k v (entries (h ! a))\<rparr>])
          else Inl TypeError
      | _ \<Rightarrow> Inl TypeError)"

definition plain_dict :: pyobj where
  "plain_dict = \<lparr>entries = [], anchor = None, round_trip = False\<rparr>"

text \<open>\<open>d.setdefault(k, {})\<close>: the value at \<open>k\<close>, or a new plain mapping entered there.\<close>

definition setdefault_dict :: "heap \<Rightarrow> pyval \<Rightarrow> string \<Rightarrow> exn + (pyval \<times> heap)" where
  "setdefault_dict h d k =
     (case getitem h d k of
        Inr v \<Rightarrow> Inr (v, h)
      | Inl KeyError \<Rightarrow>
          (case setitem (h @ [plain_dict]) d k (PRef (length h)) of
             Inl e \<Rightarrow> Inl e
           | Inr h' \<Rightarrow> Inr (PRef (length h), h'))
      | Inl e \<Rightarrow> Inl e)"

text \<open>\<open>if k not in d: d[k] = {}\<close>.\<close>

definition ensure_dict :: "heap \<Rightarrow> pyval \<Rightarrow> string \<Rightarrow> exn + heap" where
  "ensure_dict h d k =
     (case getitem h d k of
        Inr v \<Rightarrow> Inr h
      | Inl KeyError \<Rightarrow> setitem (h @ [plain_dict]) d k (PRef (length h))
      | Inl e \<Rightarrow> Inl e)"

text \<open>
  \<open>d.yaml_set_anchor(name, always_dump=...)\<close>, \<open>d.clear()\<close> and \<open>d.update(items)\<close>. A value
  without the method raises \<open>AttributeError\<close>.
\<close>

definition yaml_set_anchor :: "heap \<Rightarrow> pyval \<Rightarrow> string \<Rightarrow> bool \<Rightarrow> exn + heap" where
  "yaml_set_anchor h d name always_dump =
     (case d of
        PRef a \<Rightarrow>
          if a < length h \<and> round_trip (h ! a)
          then Inr (h[a := (h ! a)\<lparr>anchor := Some (name, always_dump)\<rparr>])
          else Inl AttributeError
      | _ \<Rightarrow> Inl AttributeError)"

definition clear_dict :: "heap \<Rightarrow> pyval \<Rightarrow> exn + heap" where
  "clear_dict h d =
     (case d of
        PRef a \<Rightarrow>
          if a < length h then Inr (h[a := (h ! a)\<lparr>entries := []\<rparr>]) else Inl AttributeError
      | _ \<Rightarrow> Inl AttributeError)"

definition update_dict :: "heap \<Rightarrow> pyval \<Rightarrow> (string \<times> pyval) list \<Rightarrow> exn + heap" where
  "update_dict h d items =
     (case d of
        PRef a \<Rightarrow>
          if a < length h
          then Inr (h[a := (h ! a)\<lparr>entries :=
                      fold (\<lambda>(k, v). AList.update k v) items (entries (h ! a))\<rparr>])
          else Inl AttributeError
      | _ \<Rightarrow> Inl AttributeError)"

definition and_then :: "exn + 'x \<Rightarrow> ('x \<Rightarrow> exn + 'y) \<Rightarrow> exn + 'y" where
  "and_then m f = (case m of Inl e \<Rightarrow> Inl e | Inr x \<Rightarrow> f x)"

text \<open>\<open>config_data['global_overrides']['cidr_networks']\<close>.\<close>

definition nested_cidr_networks :: "heap \<Rightarrow> pyval \<Rightarrow> exn + pyval" where
  "nested_cidr_networks h config_data =
     and_then (getitem h config_data ''global_overrides'')
       (\<lambda>global_overrides. getitem h global_overrides ''cidr_networks'')"

text \<open>
  The statements between the load and the dump, one line each; \<open>config_data['cidr_networks']\<close>
  is looked up anew wherever the source writes it.
\<close>

definition update_objects ::
  "heap \<Rightarrow> pyval \<Rightarrow> (string \<times> pyval) list \<Rightarrow> pyval \<Rightarrow> pyval \<Rightarrow> exn + heap" where
  "update_objects h config_data new_cidrs new_used_ips pns =
     and_then (setitem h config_data ''used_ips'' new_used_ips) (\<lambda>h1.
     and_then (setdefault_dict h1 config_data ''global_overrides'') (\<lambda>(global_overrides, h2).
     and_then (ensure_dict h2 config_data ''cidr_networks'') (\<lambda>h3.
     and_then (getitem h3 config_data ''cidr_networks'') (\<lambda>c.
     and_then (setitem h3 global_overrides ''cidr_networks'' c) (\<lambda>h4.
     and_then (getitem h4 config_data ''cidr_networks'') (\<lambda>c1.
     and_then (yaml_set_anchor h4 c1 ''cidr_networks'' True) (\<lambda>h5.
     and_then (getitem h5 config_data ''cidr_networks'') (\<lambda>c2.
     and_then (clear_dict h5 c2) (\<lambda>h6.
     and_then (getitem h6 config_data ''cidr_networks'') (\<lambda>c3.
     and_then (update_dict h6 c3 new_cidrs) (\<lambda>h7.
     setitem h7 global_overrides ''provider_networks'' pns)))))))))))"

text \<open>
  \<open>yaml.dump\<close> is the library's: it turns the objects into a graph of nodes, one node for
  each object however often it is met, and writes the node at the first place and an alias
  at every later one. A mapping node carries the anchor of its object; the name is written
  when \<open>always_dump\<close> is set or when an alias refers to the node. \<open>seen\<close> holds the
  addresses already written.
\<close>

datatype yaml_node =
    ScalarNode pyval
  | SequenceNode "yaml_node list"
  | MappingNode addr "(string \<times> bool) option" "(string \<times> yaml_node) list"
  | AliasNode addr

function represent :: "heap \<Rightarrow> addr list \<Rightarrow> pyval \<Rightarrow> yaml_node \<times> addr list"
  and represent_list :: "heap \<Rightarrow> addr list \<Rightarrow> pyval list \<Rightarrow> yaml_node list \<times> addr list"
  and represent_items ::
    "heap \<Rightarrow> addr list \<Rightarrow> (string \<times> pyval) list \<Rightarrow> (string \<times> yaml_node) list \<times> addr list"
where
  "represent h seen (PRef a) =
     (if a \<in> set seen then (AliasNode a, seen)
      else if a < length h
      then (case represent_items h (a # seen) (entries (h ! a)) of
              (items, seen') \<Rightarrow> (MappingNode a (anchor (h ! a)) items, seen'))
      else (ScalarNode PNull, seen))"
| "represent h seen (PList vs) =
     (case represent_list h seen vs of (ns, seen') \<Rightarrow> (SequenceNode ns, seen'))"
| "represent h seen PNull = (ScalarNode PNull, seen)"
| "represent h seen (PBool b) = (ScalarNode (PBool b), seen)"
| "represent h seen (PInt i) = (ScalarNode (PInt i), seen)"
| "represent h seen (PStr s) = (ScalarNode (PStr s), seen)"
| "represent_list h seen [] = ([], seen)"
| "represent_list h seen (v # vs) =
     (case represent h seen v of
        (n, seen1) \<Rightarrow>
          (case represent_list h seen1 vs of (ns, seen2) \<Rightarrow> (n # ns, seen2)))"
| "represent_items h seen [] = ([], seen)"
| "represent_items h seen ((k, v) # kvs) =
     (case represent h seen v of
        (n, seen1) \<Rightarrow>
          (case represent_items h seen1 kvs of (ns, seen2) \<Rightarrow> ((k, n) # ns, seen2)))"
  by pat_completeness auto

definition dump :: "heap \<Rightarrow> pyval \<Rightarrow> yaml_node" where
  "dump h data = fst (represent h [] data)"

text \<open>The block of the \<open>try\<close> after the load: the objects afterwards and the document written.\<close>

definition write_document ::
  "heap \<Rightarrow> pyval \<Rightarrow> (string \<times> pyval) list \<Rightarrow> pyval \<Rightarrow> pyval \<Rightarrow> exn + (heap \<times> yaml_node)" where
  "write_document h config_data new_cidrs new_used_ips pns =
     and_then (update_objects h config_data new_cidrs new_used_ips pns)
       (\<lambda>h'. Inr (h', dump h' config_data))"

subsection \<open>The values of the objects\<close>

text \<open>
  What \<open>load_configs\<close> and \<open>has_unsaved_changes\<close> see of an object graph is its value: the
  document with every reference replaced by the mapping it refers to. \<open>inside\<close> holds the
  objects the value is part of; a mapping that contains itself has no value.
\<close>

function value_of :: "heap \<Rightarrow> addr list \<Rightarrow> pyval \<Rightarrow> yaml option"
  and values_of :: "heap \<Rightarrow> addr list \<Rightarrow> pyval list \<Rightarrow> yaml list option"
  and values_of_items :: "heap \<Rightarrow> addr list \<Rightarrow> (string \<times> pyval) list \<Rightarrow> pydict option"
where
  "value_of h inside PNull = Some YNull"
| "value_of h inside (PBool b) = Some (YBool b)"
| "value_of h inside (PInt i) = Some (YInt i)"
| "value_of h inside (PStr s) = Some (YStr s)"
| "value_of h inside (PList vs) = map_option YSeq (values_of h inside vs)"
| "value_of h inside (PRef a) =
     (if a \<in> set inside \<or> \<not> a < length h then None
      else map_option YMap (values_of_items h (a # inside) (entries (h ! a))))"
| "values_of h inside [] = Some []"
| "values_of h inside (v # vs) =
     (case value_of h inside v of
        None \<Rightarrow> None
      | Some x \<Rightarrow> map_option ((#) x) (values_of h inside vs))"
| "values_of_items h inside [] = Some []"
| "values_of_items h inside ((k, v) # kvs) =
     (case value_of h inside v of
        None \<Rightarrow> None
      | Some x \<Rightarrow> map_option ((#) (k, x)) (values_of_items h inside kvs))"
  by pat_completeness auto

text \<open>
  The file \<open>openstack_user_config.yml\<close> as \<open>yaml.load\<close> returns it: the objects and the
  document among them, or the \<open>YAMLError\<close>. \<open>load_configs\<close> reads the value of the document. A
  document that contains itself has no value of type \<open>yaml\<close>; the models of the load and of
  the comparison do not reach it, and it is taken like a file that cannot be read.
\<close>

datatype document = Objects heap pyval | Unreadable

definition parsed :: "document \<Rightarrow> content" where
  "parsed f =
     (case f of
        Unreadable \<Rightarrow> Unparseable
      | Objects h data \<Rightarrow> (case value_of h [] data of None \<Rightarrow> Unparseable | Some v \<Rightarrow> Parsed v))"

text \<open>
  The values the screen holds are objects of its own, apart from those of the document the
  save has just loaded. They enter the store behind the document's objects: a mapping
  becomes a new object, after the objects its entries refer to.
\<close>

fun allocate :: "heap \<Rightarrow> yaml \<Rightarrow> pyval \<times> heap"
  and allocate_list :: "heap \<Rightarrow> yaml list \<Rightarrow> pyval list \<times> heap"
  and allocate_items :: "heap \<Rightarrow> pydict \<Rightarrow> (string \<times> pyval) list \<times> heap"
where
  "allocate h YNull = (PNull, h)"
| "allocate h (YBool b) = (PBool b, h)"
| "allocate h (YInt i) = (PInt i, h)"
| "allocate h (YStr s) = (PStr s, h)"
| "allocate h (YSeq xs) = (case allocate_list h xs of (ps, h') \<Rightarrow> (PList ps, h'))"
| "allocate h (YMap kvs) =
     (case allocate_items h kvs of
        (items, h') \<Rightarrow>
          (PRef (length h'), h' @ [\<lparr>entries = items, anchor = None, round_trip = False\<rparr>]))"
| "allocate_list h [] = ([], h)"
| "allocate_list h (x # xs) =
     (case allocate h x of
        (p, h1) \<Rightarrow> (case allocate_list h1 xs of (ps, h2) \<Rightarrow> (p # ps, h2)))"
| "allocate_items h [] = ([], h)"
| "allocate_items h ((k, x) # kvs) =
     (case allocate h x of
        (p, h1) \<Rightarrow> (case allocate_items h1 kvs of (items, h2) \<Rightarrow> ((k, p) # items, h2)))"

subsection \<open>action_save_configs\<close>

datatype save_outcome =
    No_changes_to_save
  | Error_saving_file
  | Save_raised exn
  | Saved load_outcome

text \<open>
  What becomes of the file when the document is dumped to it: the write raises (\<open>IOError\<close> or
  \<open>YAMLError\<close>, both caught) and leaves some file behind, or the file now reads as a document.
  The emitter and the parser of the library lie between the objects dumped and the document
  read back; they are not modelled, and every operation that writes takes them as the
  parameter \<open>disk\<close>.
\<close>

datatype written = Write_failed "document option" | Written document

text \<open>
  The \<open>try\<close> block after the file has been loaded: \<open>new_cidrs\<close>, \<open>new_used_ips\<close> and the
  provider networks of the screen enter the store, the statements update the objects, and
  the document is dumped.
\<close>

definition write_objects :: "heap \<Rightarrow> pyval \<Rightarrow> screen \<Rightarrow> exn + (heap \<times> yaml_node)" where
  "write_objects h config_data s =
     (case allocate_items h (current_cidrs (cidr_networks s)) of
        (new_cidrs, h1) \<Rightarrow>
          (case allocate h1 (provider_networks s) of
             (pns, h2) \<Rightarrow>
               write_document h2 config_data new_cidrs
                 (PList (map PStr (current_used_ips (cidr_networks s)))) pns))"

text \<open>The \<open>used_ips\<close> entry of the document at the time of the dump.\<close>

definition written_used_ips :: "heap \<Rightarrow> pyval \<Rightarrow> screen \<Rightarrow> exn + pyval" where
  "written_used_ips h config_data s =
     (case write_objects h config_data s of
        Inl e \<Rightarrow> Inl e
      | Inr (h', doc) \<Rightarrow> getitem h' config_data ''used_ips'')"

text \<open>
  \<open>action_save_configs\<close> on the file and the screen: the outcome, the file afterwards and the
  screen afterwards. A file that is missing or cannot be parsed is the caught \<open>IOError\<close> or
  \<open>YAMLError\<close>; what the statements raise is not caught and leaves the file as it was. After
  the write the file is loaded again.
\<close>

definition action_save_configs ::
  "('n, 'a) ipaddress \<Rightarrow> (heap \<Rightarrow> pyval \<Rightarrow> written) \<Rightarrow> document option \<Rightarrow> screen \<Rightarrow>
     save_outcome \<times> document option \<times> screen" where
  "action_save_configs lib disk user_config_file s =
     (case has_unsaved_changes s of
        Inl e \<Rightarrow> (Save_raised e, user_config_file, s)
      | Inr False \<Rightarrow> (No_changes_to_save, user_config_file, s)
      | Inr True \<Rightarrow>
          (case user_config_file of
             None \<Rightarrow> (Error_saving_file, user_config_file, s)
           | Some Unreadable \<Rightarrow> (Error_saving_file, user_config_file, s)
           | Some (Objects h config_data) \<Rightarrow>
               (case write_objects h config_data s of
                  Inl e \<Rightarrow> (Save_raised e, user_config_file, s)
                | Inr (h', doc) \<Rightarrow>
                    (case disk h' config_data of
                       Write_failed left \<Rightarrow> (Error_saving_file, left, s)
                     | Written f \<Rightarrow>
                         (let r = load_configs lib (Some (parsed f)) s
                          in (Saved (fst r), Some f, snd r))))))"

section \<open>The generic configuration screen (screens/services/generic.py)\<close>

text \<open>
  \<open>initial_data\<close> is the dictionary \<open>load_service_config\<close> returned, \<open>current_config\<close> the one
  \<open>_get_current_config\<close> gathers from the two input widgets.
\<close>

definition generic_has_unsaved_changes :: "pydict \<Rightarrow> pydict \<Rightarrow> bool" where
  "generic_has_unsaved_changes initial current_config =
     (if initial = [] then False
      else list_ex (\<lambda>key. \<not> py_eq (get_default current_config key YNull)
                                  (get_default initial key (YStr [])))
             (map fst current_config))"

definition generic_action_pop_screen :: "pydict \<Rightarrow> pydict \<Rightarrow> string \<Rightarrow> navigation" where
  "generic_action_pop_screen initial current_config action =
     (if generic_has_unsaved_changes initial current_config then Confirm_exit
      else if action = ''pop'' then Pop_screen
      else if action = ''quit'' then Exit_app
      else Stay)"

section \<open>Predicates of the statements\<close>

text \<open>
  The used ranges a baseline document lists: none when the key is missing or null, the
  strings of the sequence otherwise.
\<close>

definition baseline_ranges :: "pydict \<Rightarrow> string list option" where
  "baseline_ranges d =
     (case map_of d ''used_ips'' of
        None \<Rightarrow> Some []
      | Some YNull \<Rightarrow> Some []
      | Some (YSeq xs) \<Rightarrow> the_strings xs
      | Some v \<Rightarrow> None)"

text \<open>
  The baseline holds the two keys the comparison writes into its copy: \<open>cidr_networks\<close>, and
  \<open>provider_networks\<close> inside a mapping under \<open>global_overrides\<close>.
\<close>

definition holds_both_keys :: "pydict \<Rightarrow> bool" where
  "holds_both_keys d \<longleftrightarrow>
     map_of d ''cidr_networks'' \<noteq> None \<and>
     (case map_of d ''global_overrides'' of
        Some (YMap g) \<Rightarrow> map_of g ''provider_networks'' \<noteq> None
      | _ \<Rightarrow> False)"

text \<open>
  The derived collections differ from a baseline document at most in the order of the used
  ranges: read as \<open>load_configs\<close> reads it, with its defaults for a missing key, the baseline
  has the block mapping and the provider networks of the screen (as Python compares them),
  and it lists the same ranges the same number of times. Everything else of the document is
  the baseline's own, since the comparison starts from a copy of it.
\<close>

definition differs_only_by_order :: "pydict \<Rightarrow> screen \<Rightarrow> bool" where
  "differs_only_by_order d s \<longleftrightarrow>
     py_eq (get_default d ''cidr_networks'' (YMap [])) (YMap (current_cidrs (cidr_networks s))) \<and>
     (case get_default d ''global_overrides'' (YMap []) of
        YMap g \<Rightarrow> py_eq (get_default g ''provider_networks'' (YSeq [])) (provider_networks s)
      | _ \<Rightarrow> False) \<and>
     (case baseline_ranges d of
        None \<Rightarrow> False
      | Some us \<Rightarrow> mset us = mset (current_used_ips (cidr_networks s)))"

text \<open>
  A range is assigned when its low endpoint parses and some block of the containment index
  contains it; it is orphaned in a document when its low endpoint parses and no declared
  block whose cidr parses contains it.
\<close>

definition assigned :: "('n, 'a) ipaddress \<Rightarrow> (string \<times> 'n) list \<Rightarrow> string \<Rightarrow> bool" where
  "assigned lib nets r =
     (case ip_address lib (first_ip_str r) of
        None \<Rightarrow> False
      | Some ip \<Rightarrow> find_network lib nets ip \<noteq> None)"

definition orphaned :: "('n, 'a) ipaddress \<Rightarrow> pydict \<Rightarrow> string \<Rightarrow> bool" where
  "orphaned lib d r =
     (\<exists>ip. ip_address lib (first_ip_str r) = Some ip \<and>
        (\<forall>raw. get_default d ''cidr_networks'' (YMap []) = YMap raw \<longrightarrow>
           (\<forall>(name, c) \<in> set raw. \<forall>network. ip_network lib c = Some network \<longrightarrow>
              \<not> contains lib network ip)))"

text \<open>
  The block mapping of a document is a dictionary: no block name is declared twice.
\<close>

definition distinct_blocks :: "pydict \<Rightarrow> bool" where
  "distinct_blocks d =
     (case map_of d ''cidr_networks'' of
        Some (YMap raw) \<Rightarrow> distinct (map fst raw)
      | _ \<Rightarrow> True)"

text \<open>
  The invariant of the derived block collection: block names are distinct, the cidr of a
  block that holds ranges parses, and the low endpoint of each of its ranges parses and lies
  in that network. The containment index matches the collection when each of its networks
  is the parsed cidr of the block of that name.
\<close>

definition ranges_in_blocks :: "('n, 'a) ipaddress \<Rightarrow> cidrs \<Rightarrow> bool" where
  "ranges_in_blocks lib cs =
     (distinct (map fst cs) \<and>
      (\<forall>(name, data) \<in> set cs. \<forall>r \<in> set (used_ips data).
         \<exists>network ip. ip_network lib (cidr data) = Some network \<and>
                      ip_address lib (first_ip_str r) = Some ip \<and> contains lib network ip))"

definition nets_match :: "('n, 'a) ipaddress \<Rightarrow> (string \<times> 'n) list \<Rightarrow> cidrs \<Rightarrow> bool" where
  "nets_match lib nets cs =
     (\<forall>(n, net) \<in> set nets. \<exists>data. (n, data) \<in> set cs \<and> ip_network lib (cidr data) = Some net)"

text \<open>
  How often a document holds the mapping node of an object (with the anchor it carries),
  how often an alias of it, and how often a value refers to it directly.
\<close>

fun mappings_of :: "addr \<Rightarrow> yaml_node \<Rightarrow> (string \<times> bool) option list" where
  "mappings_of a (ScalarNode v) = []"
| "mappings_of a (SequenceNode ns) = concat (map (mappings_of a) ns)"
| "mappings_of a (MappingNode b anc items) =
     (if a = b then [anc] else []) @ concat (map (\<lambda>(k, n). mappings_of a n) items)"
| "mappings_of a (AliasNode b) = []"

fun aliases_of :: "addr \<Rightarrow> yaml_node \<Rightarrow> nat" where
  "aliases_of a (ScalarNode v) = 0"
| "aliases_of a (SequenceNode ns) = sum_list (map (aliases_of a) ns)"
| "aliases_of a (MappingNode b anc items) = sum_list (map (\<lambda>(k, n). aliases_of a n) items)"
| "aliases_of a (AliasNode b) = (if a = b then 1 else 0)"

fun refs :: "addr \<Rightarrow> pyval \<Rightarrow> nat" where
  "refs a (PRef b) = (if a = b then 1 else 0)"
| "refs a (PList vs) = sum_list (map (refs a) vs)"
| "refs a v = 0"

definition refs_items :: "addr \<Rightarrow> (string \<times> pyval) list \<Rightarrow> nat" where
  "refs_items a kvs = sum_list (map (\<lambda>(k, v). refs a v) kvs)"

text \<open>The objects of the store not yet written.\<close>

definition unseen :: "heap \<Rightarrow> addr list \<Rightarrow> nat" where
  "unseen h seen = length (filter (\<lambda>a. a \<notin> set seen) [0..<length h])"

text \<open>
  The account of one stretch of a dump, from \<open>seen\<close> to \<open>seen'\<close>, for the object \<open>a\<close>: its
  mapping node is written once if it was met for the first time, and every reference
  followed, \<open>m\<close> in the value dumped and those in the objects written on the way, gave a
  mapping node or an alias.
\<close>

definition counted ::
  "heap \<Rightarrow> addr \<Rightarrow> addr list \<Rightarrow> addr list \<Rightarrow> nat \<Rightarrow> (string \<times> bool) option list \<Rightarrow> nat \<Rightarrow> bool" where
  "counted h a seen seen' m ms al \<longleftrightarrow>
     set seen \<subseteq> set seen' \<and>
     ms = (if a \<in> set seen' \<and> a \<notin> set seen then [anchor (h ! a)] else []) \<and>
     length ms + al = m + (\<Sum>b \<in> set seen' - set seen. refs_items a (entries (h ! b))) \<and>
     (0 < m \<or> 0 < al \<longrightarrow> a \<in> set seen')"








section \<open>Concrete inputs\<close>

text \<open>A group_vars directory that holds only the legacy file \<open>haproxy.yml\<close>, and the same after migration.\<close>

definition haproxy_legacy_only :: "pydict \<Rightarrow> fs" where
  "haproxy_legacy_only d =
     [([''group_vars''], Dir),
      ([''group_vars'', ''haproxy.yml''], File (Parsed (YMap d)))]"

definition haproxy_migrated :: "pydict \<Rightarrow> fs" where
  "haproxy_migrated d =
     [([''group_vars''], Dir),
      ([''group_vars'', ''haproxy'', ''migrated_haproxy.yml''], File (Parsed (YMap d))),
      ([''group_vars'', ''haproxy''], Dir)]"

text \<open>A service directory with the override file and a file whose name sorts after it.\<close>

definition override_and_zz :: fs where
  "override_and_zz =
     [([''group_vars''], Dir),
      ([''group_vars'', ''haproxy''], Dir),
      ([''group_vars'', ''haproxy'', ''wizzard.yml''],
         File (Parsed (YMap [(''maxconn'', YStr ''override'')]))),
      ([''group_vars'', ''haproxy'', ''zz.yml''],
         File (Parsed (YMap [(''maxconn'', YStr ''base'')])))]"

text \<open>A group_vars directory with two legacy files of one service.\<close>

definition two_legacy_files :: fs where
  "two_legacy_files =
     [([''group_vars''], Dir),
      ([''group_vars'', ''haproxy.yml''], File (Parsed (YMap [(''a'', YInt 1)]))),
      ([''group_vars'', ''haproxy_all.yml''], File (Parsed (YMap [(''b'', YInt 2)])))]"

text \<open>A screen with the block \<open>mgmt\<close> and one used range.\<close>

definition mgmt_screen :: screen where
  "mgmt_screen =
     \<lparr>initial_data = YMap [], provider_networks = YSeq [],
      cidr_networks =
        [(''mgmt'', \<lparr>cidr = YStr ''10.0.0.0/24'', used_ips = [''10.0.0.5,10.0.0.10'']\<rparr>)]\<rparr>"

text \<open>
  The document of the specification's example: one block, one range inside it and one
  range that no block contains.
\<close>

definition spec_example :: pydict where
  "spec_example =
     [(''cidr_networks'', YMap [(''mgmt'', YStr ''10.0.0.0/24'')]),
      (''used_ips'', YSeq [YStr ''10.0.0.5,10.0.0.10'', YStr ''192.168.9.9'']),
      (''global_overrides'', YMap [(''provider_networks'', YSeq [])])]"

definition spec_example_loaded :: screen where
  "spec_example_loaded =
     \<lparr>initial_data = YMap spec_example, provider_networks = YSeq [],
      cidr_networks =
        [(''mgmt'', \<lparr>cidr = YStr ''10.0.0.0/24'', used_ips = [''10.0.0.5,10.0.0.10'']\<rparr>)]\<rparr>"

definition spec_example_written :: pydict where
  "spec_example_written =
     [(''cidr_networks'', YMap [(''mgmt'', YStr ''10.0.0.0/24'')]),
      (''used_ips'', YSeq [YStr ''10.0.0.5,10.0.0.10'']),
      (''global_overrides'',
         YMap [(''provider_networks'', YSeq []),
               (''cidr_networks'', YMap [(''mgmt'', YStr ''10.0.0.0/24'')])])]"

text \<open>
  A document with two blocks whose ranges are listed in the other order, the screen it
  loads to, a provider network to add, and the document saved after adding it.
\<close>

definition two_blocks :: pydict where
  "two_blocks =
     [(''cidr_networks'',
         YMap [(''container'', YStr ''10.0.0.0/24''), (''tunnel'', YStr ''10.0.1.0/24'')]),
      (''used_ips'', YSeq [YStr ''10.0.1.5'', YStr ''10.0.0.5'']),
      (''global_overrides'', YMap [(''provider_networks'', YSeq [])])]"

definition br_mgmt :: yaml where
  "br_mgmt =
     YMap [(''network'',
        YMap [(''container_bridge'', YStr ''br-mgmt''), (''type'', YStr ''raw''),
              (''container_interface'', YStr ''eth1''), (''ip_from_q'', YStr ''container''),
              (''group_binds'', YSeq [])])]"

definition two_blocks_loaded :: screen where
  "two_blocks_loaded =
     \<lparr>initial_data = YMap two_blocks, provider_networks = YSeq [],
      cidr_networks =
        [(''container'', \<lparr>cidr = YStr ''10.0.0.0/24'', used_ips = [''10.0.0.5'']\<rparr>),
         (''tunnel'', \<lparr>cidr = YStr ''10.0.1.0/24'', used_ips = [''10.0.1.5'']\<rparr>)]\<rparr>"

definition two_blocks_written :: pydict where
  "two_blocks_written =
     [(''cidr_networks'',
         YMap [(''container'', YStr ''10.0.0.0/24''), (''tunnel'', YStr ''10.0.1.0/24'')]),
      (''used_ips'', YSeq [YStr ''10.0.0.5'', YStr ''10.0.1.5'']),
      (''global_overrides'',
         YMap [(''provider_networks'', YSeq [br_mgmt]),
               (''cidr_networks'',
                  YMap [(''container'', YStr ''10.0.0.0/24''), (''tunnel'', YStr ''10.0.1.0/24'')])])]"

text \<open>
  The objects of the specification's example as the loader leaves them: the document, its
  \<open>cidr_networks\<close> and its \<open>global_overrides\<close>; the same after a save, and the document dumped.
\<close>

definition spec_example_store :: heap where
  "spec_example_store =
     [\<lparr>entries = [(''cidr_networks'', PRef 1),
                 (''used_ips'', PList [PStr ''10.0.0.5,10.0.0.10'', PStr ''192.168.9.9'']),
                 (''global_overrides'', PRef 2)],
       anchor = None, round_trip = True\<rparr>,
      \<lparr>entries = [(''mgmt'', PStr ''10.0.0.0/24'')], anchor = None, round_trip = True\<rparr>,
      \<lparr>entries = [(''provider_networks'', PList [])], anchor = None, round_trip = True\<rparr>]"

definition spec_example_store_saved :: heap where
  "spec_example_store_saved =
     [\<lparr>entries = [(''cidr_networks'', PRef 1),
                 (''used_ips'', PList [PStr ''10.0.0.5,10.0.0.10'']),
                 (''global_overrides'', PRef 2)],
       anchor = None, round_trip = True\<rparr>,
      \<lparr>entries = [(''mgmt'', PStr ''10.0.0.0/24'')],
       anchor = Some (''cidr_networks'', True), round_trip = True\<rparr>,
      \<lparr>entries = [(''provider_networks'', PList []), (''cidr_networks'', PRef 1)],
       anchor = None, round_trip = True\<rparr>]"

definition spec_example_dumped :: yaml_node where
  "spec_example_dumped =
     MappingNode 0 None
       [(''cidr_networks'',
           MappingNode 1 (Some (''cidr_networks'', True))
             [(''mgmt'', ScalarNode (PStr ''10.0.0.0/24''))]),
        (''used_ips'', SequenceNode [ScalarNode (PStr ''10.0.0.5,10.0.0.10'')]),
        (''global_overrides'',
           MappingNode 2 None
             [(''provider_networks'', SequenceNode []),
              (''cidr_networks'', AliasNode 1)])]"

text \<open>A store in which \<open>global_overrides\<close> is an alias of the \<open>cidr_networks\<close> mapping.\<close>

definition aliased_overrides_store :: heap where
  "aliased_overrides_store =
     [\<lparr>entries = [(''cidr_networks'', PRef 1), (''global_overrides'', PRef 1)],
       anchor = None, round_trip = True\<rparr>,
      \<lparr>entries = [(''mgmt'', PStr ''10.0.0.0/24'')],
       anchor = Some (''cidr_networks'', False), round_trip = True\<rparr>]"

text \<open>
  Two disks: one on which a file reads back as the very objects that were dumped, and one
  whose reader takes U+0085 (next line) inside a key for a line break, folds it to a space,
  and refuses a mapping in which a key then occurs twice.
\<close>

definition exact_disk :: "heap \<Rightarrow> pyval \<Rightarrow> written" where
  "exact_disk h data = Written (Objects h data)"



text \<open>
  The objects of the two-block document, the objects after the save that follows the
  adding of the provider network, and the screen after that save.
\<close>

definition two_blocks_store :: heap where
  "two_blocks_store =
     [\<lparr>entries = [(''cidr_networks'', PRef 1),
                 (''used_ips'', PList [PStr ''10.0.1.5'', PStr ''10.0.0.5'']),
                 (''global_overrides'', PRef 2)],
       anchor = None, round_trip = True\<rparr>,
      \<lparr>entries = [(''container'', PStr ''10.0.0.0/24''), (''tunnel'', PStr ''10.0.1.0/24'')],
       anchor = None, round_trip = True\<rparr>,
      \<lparr>entries = [(''provider_networks'', PList [])], anchor = None, round_trip = True\<rparr>]"

definition two_blocks_store_saved :: heap where
  "two_blocks_store_saved =
     [\<lparr>entries = [(''cidr_networks'', PRef 1),
                 (''used_ips'', PList [PStr ''10.0.0.5'', PStr ''10.0.1.5'']),
                 (''global_overrides'', PRef 2)],
       anchor = None, round_trip = True\<rparr>,
      \<lparr>entries = [(''container'', PStr ''10.0.0.0/24''), (''tunnel'', PStr ''10.0.1.0/24'')],
       anchor = Some (''cidr_networks'', True), round_trip = True\<rparr>,
      \<lparr>entries = [(''provider_networks'', PList [PRef 4]), (''cidr_networks'', PRef 1)],
       anchor = None, round_trip = True\<rparr>,
      \<lparr>entries = [(''container_bridge'', PStr ''br-mgmt''), (''type'', PStr ''raw''),
                 (''container_interface'', PStr ''eth1''), (''ip_from_q'', PStr ''container''),
                 (''group_binds'', PList [])],
       anchor = None, round_trip = False\<rparr>,
      \<lparr>entries = [(''network'', PRef 3)], anchor = None, round_trip = False\<rparr>]"

definition two_blocks_saved_screen :: screen where
  "two_blocks_saved_screen =
     \<lparr>initial_data = YMap two_blocks_written, provider_networks = YSeq [br_mgmt],
      cidr_networks = cidr_networks two_blocks_loaded\<rparr>"

text \<open>
  The screen after the example of the specification was saved as loaded, and the screen
  after a block \<open>lab\<close> that contains the orphaned range was entered with that range.
\<close>

definition spec_example_saved_screen :: screen where
  "spec_example_saved_screen =
     \<lparr>initial_data = YMap spec_example_written, provider_networks = YSeq [],
      cidr_networks = cidr_networks spec_example_loaded\<rparr>"

definition lab_screen :: screen where
  "lab_screen =
     \<lparr>initial_data = YMap spec_example, provider_networks = YSeq [],
      cidr_networks =
        [(''mgmt'', \<lparr>cidr = YStr ''10.0.0.0/24'', used_ips = [''10.0.0.5,10.0.0.10'']\<rparr>),
         (''lab'', \<lparr>cidr = YStr ''192.168.9.0/24'', used_ips = [''192.168.9.9'']\<rparr>)]\<rparr>"



text \<open>
  The value of the store in which \<open>global_overrides\<close> is an alias of \<open>cidr_networks\<close>, the
  screen it loads to, that screen after a block named \<open>provider_networks\<close> was entered, and
  the objects after the statements of a save with one block.
\<close>

definition aliased_overrides :: pydict where
  "aliased_overrides =
     [(''cidr_networks'', YMap [(''mgmt'', YStr ''10.0.0.0/24'')]),
      (''global_overrides'', YMap [(''mgmt'', YStr ''10.0.0.0/24'')])]"

definition aliased_overrides_loaded :: screen where
  "aliased_overrides_loaded =
     \<lparr>initial_data = YMap aliased_overrides, provider_networks = YSeq [],
      cidr_networks = [(''mgmt'', \<lparr>cidr = YStr ''10.0.0.0/24'', used_ips = []\<rparr>)]\<rparr>"


definition aliased_overrides_saved :: heap where
  "aliased_overrides_saved =
     [\<lparr>entries = [(''cidr_networks'', PRef 1), (''global_overrides'', PRef 1),
                 (''used_ips'', PList [])],
       anchor = None, round_trip = True\<rparr>,
      \<lparr>entries = [(''mgmt'', PStr ''10.0.0.0/24''), (''provider_networks'', PList [])],
       anchor = Some (''cidr_networks'', True), round_trip = True\<rparr>]"

text \<open>
  A store in which \<open>global_overrides\<close> is an alias of the document itself, and the objects
  after the statements of a save.
\<close>

definition self_overrides_store :: heap where
  "self_overrides_store =
     [\<lparr>entries = [(''cidr_networks'', PRef 1), (''global_overrides'', PRef 0)],
       anchor = Some (''document'', False), round_trip = True\<rparr>,
      \<lparr>entries = [(''mgmt'', PStr ''10.0.0.0/24'')], anchor = None, round_trip = True\<rparr>]"

definition self_overrides_saved :: heap where
  "self_overrides_saved =
     [\<lparr>entries = [(''cidr_networks'', PRef 1), (''global_overrides'', PRef 0),
                 (''used_ips'', PList []), (''provider_networks'', PList [])],
       anchor = Some (''document'', False), round_trip = True\<rparr>,
      \<lparr>entries = [(''mgmt'', PStr ''10.0.0.0/24'')],
       anchor = Some (''cidr_networks'', True), round_trip = True\<rparr>]"

text \<open>A document without \<open>global_overrides\<close>, and the screen it loads to.\<close>

definition no_overrides :: pydict where
  "no_overrides =
     [(''cidr_networks'', YMap [(''mgmt'', YStr ''10.0.0.0/24'')]),
      (''used_ips'', YSeq [YStr ''10.0.0.5''])]"

definition no_overrides_loaded :: screen where
  "no_overrides_loaded =
     \<lparr>initial_data = YMap no_overrides, provider_networks = YSeq [],
      cidr_networks = [(''mgmt'', \<lparr>cidr = YStr ''10.0.0.0/24'', used_ips = [''10.0.0.5'']\<rparr>)]\<rparr>"

text \<open>
  A document whose \<open>global_overrides\<close> has no \<open>provider_networks\<close>, a document without
  \<open>cidr_networks\<close>, and the screens they load to.
\<close>

definition no_provider_networks :: pydict where
  "no_provider_networks =
     [(''cidr_networks'', YMap [(''mgmt'', YStr ''10.0.0.0/24'')]),
      (''global_overrides'', YMap []),
      (''used_ips'', YSeq [YStr ''10.0.0.5''])]"

definition no_provider_networks_loaded :: screen where
  "no_provider_networks_loaded =
     \<lparr>initial_data = YMap no_provider_networks, provider_networks = YSeq [],
      cidr_networks = [(''mgmt'', \<lparr>cidr = YStr ''10.0.0.0/24'', used_ips = [''10.0.0.5'']\<rparr>)]\<rparr>"

definition no_cidr_networks :: pydict where
  "no_cidr_networks = [(''global_overrides'', YMap [(''provider_networks'', YSeq [])])]"

definition no_cidr_networks_loaded :: screen where
  "no_cidr_networks_loaded =
     \<lparr>initial_data = YMap no_cidr_networks, provider_networks = YSeq [], cidr_networks = []\<rparr>"

section \<open>Properties of the service configuration store\<close>

lemma dict_update_Nil [simp]: "dict_update d [] = d"
  by (simp add: dict_update_def)

lemma dict_update_Cons [simp]: "dict_update d ((k, v) # e) = dict_update (AList.update k v d) e"
  by (simp add: dict_update_def)

lemmas store_defs =
  load_service_config_def group_vars_path_def mkdir_exist_ok_def is_dir_def exists_path_def
  legacy_files_def initial_new_name_def shutil_move_def rename_def glob_def endswith_def

lemma update_fresh: "k \<notin> fst ` set a \<Longrightarrow> AList.update k v a = a @ [(k, v)]"
  by (induction a) auto

lemma fold_update_append:
  "distinct (map fst (a @ d)) \<Longrightarrow> fold (\<lambda>(k, v). AList.update k v) d a = a @ d"
proof (induction d arbitrary: a)
  case Nil
  then show ?case by simp
next
  case (Cons p d)
  obtain k v where p: "p = (k, v)" by (cases p)
  from Cons.prems p have fresh: "k \<notin> fst ` set a" by auto
  from Cons.prems p have "distinct (map fst ((a @ [(k, v)]) @ d))" by auto
  then have "fold (\<lambda>(k, v). AList.update k v) d (a @ [(k, v)]) = (a @ [(k, v)]) @ d"
    by (rule Cons.IH)
  with fresh p show ?case by (simp add: update_fresh)
qed

lemma dict_update_empty: "distinct (map fst d) \<Longrightarrow> dict_update [] d = d"
  using fold_update_append [of "[]" d] by (simp add: dict_update_def)

lemma dict_of_distinct: "distinct (map fst d) \<Longrightarrow> dict_of d = d"
  using fold_update_append [of "[]" d] by (simp add: dict_of_def)

lemma first_load_haproxy:
  "load_service_config (haproxy_legacy_only d) ''haproxy''
     = (Inr (dict_update [] d, None), haproxy_migrated d)"
  by (cases d) (simp_all add: store_defs haproxy_legacy_only_def haproxy_migrated_def)

lemma second_load_haproxy:
  "load_service_config (haproxy_migrated d) ''haproxy''
     = (Inr (dict_update [] d, None), haproxy_migrated d)"
  by (cases d) (simp_all add: store_defs haproxy_migrated_def)

lemma no_legacy_after_migration:
  "list_all (\<lambda>p. \<not> exists_path (haproxy_migrated d) p) (legacy_files ''haproxy'')"
  by (simp add: store_defs haproxy_migrated_def)

text \<open>
  C1 (the code departs from the claim). With \<open>wizzard.yml\<close> and \<open>zz.yml\<close> both defining
  \<open>maxconn\<close>, the list sorted for the purpose puts \<open>wizzard.yml\<close> last, but the loading loop
  walks the plain alphabetical listing: \<open>zz.yml\<close> is merged after the override file and the
  merged mapping holds the value of \<open>zz.yml\<close>.
\<close>

theorem override_file_not_applied_last:
  "config_files override_and_zz [''group_vars'', ''haproxy'']
     = [[''group_vars'', ''haproxy'', ''zz.yml''], [''group_vars'', ''haproxy'', ''wizzard.yml'']]
   \<and> load_service_config override_and_zz ''haproxy''
     = (Inr ([(''maxconn'', YStr ''base'')], None), override_and_zz)"
  by (simp add: config_files_def store_defs override_and_zz_def)

text \<open>
  C6 (the code departs from the claim). With \<open>haproxy.yml\<close> and \<open>haproxy_all.yml\<close> both
  present, the second move goes to the name chosen for the first: the service directory ends
  up with the single file \<open>migrated_haproxy.yml\<close> holding the contents of \<open>haproxy_all.yml\<close>,
  and the key \<open>a\<close> of \<open>haproxy.yml\<close> is in neither the directory nor the merged result.
\<close>

theorem second_legacy_file_overwrites_first:
  "load_service_config two_legacy_files ''haproxy''
     = (Inr ([(''b'', YInt 2)], None),
        [([''group_vars''], Dir),
         ([''group_vars'', ''haproxy'', ''migrated_haproxy.yml''],
            File (Parsed (YMap [(''b'', YInt 2)]))),
         ([''group_vars'', ''haproxy''], Dir)])"
  by (simp add: store_defs two_legacy_files_def)

text \<open>
  C7. On a group_vars directory that holds only the legacy file \<open>haproxy.yml\<close> (a mapping
  \<open>d\<close>), \<open>load_service_config\<close> returns \<open>d\<close> without an error and leaves the file at
  \<open>group_vars/haproxy/migrated_haproxy.yml\<close>; no legacy path exists afterwards, and a second
  call returns \<open>d\<close> again and leaves the file system as it found it.
\<close>

theorem legacy_migration_idempotent:
  assumes "distinct (map fst d)"
  shows "load_service_config (haproxy_legacy_only d) ''haproxy''
           = (Inr (d, None), haproxy_migrated d)
         \<and> list_all (\<lambda>p. \<not> exists_path (haproxy_migrated d) p) (legacy_files ''haproxy'')
         \<and> load_service_config (haproxy_migrated d) ''haproxy''
           = (Inr (d, None), haproxy_migrated d)"
  using assms first_load_haproxy [of d] second_load_haproxy [of d] no_legacy_after_migration [of d]
  by (simp add: dict_update_empty)

theorem legacy_migration_idempotent_witness:
  "load_service_config (haproxy_legacy_only [(''maxconn'', YInt 4096)]) ''haproxy''
     = (Inr ([(''maxconn'', YInt 4096)], None), haproxy_migrated [(''maxconn'', YInt 4096)])
   \<and> list_all (\<lambda>p. \<not> exists_path (haproxy_migrated [(''maxconn'', YInt 4096)]) p)
        (legacy_files ''haproxy'')
   \<and> load_service_config (haproxy_migrated [(''maxconn'', YInt 4096)]) ''haproxy''
     = (Inr ([(''maxconn'', YInt 4096)], None), haproxy_migrated [(''maxconn'', YInt 4096)])"
  using legacy_migration_idempotent [of "[(''maxconn'', YInt 4096)]"] by simp

section \<open>Properties of the network screens\<close>

lemmas ipv4_defs =
  ipv4_def ipv4_network_def ipv4_address_def ipv4_contains_def octet_def decimal_def digit_val_def

lemmas str_defs = strip_def is_space_def is_linebreak_def used_ips_lines_def range_parts_def

subsection \<open>Validation of a block\<close>

lemma split_on_nonempty: "split_on c s \<noteq> []"
  by (induction s) (auto split: list.splits)

lemma check_ranges_None:
  "check_ranges lib network v rs = None \<longleftrightarrow> (\<forall>r \<in> set rs. range_ok lib network r)"
  by (induction rs) (auto simp: range_ok_def Let_def split: option.splits)

lemma check_ranges_ok:
  "\<forall>r \<in> set rs. range_ok lib network r \<Longrightarrow> check_ranges lib network v rs = None"
  by (simp add: check_ranges_None)

lemma check_ranges_Some:
  "check_ranges lib network v rs = Some e \<Longrightarrow> names_offender lib network v rs e"
  by (induction rs)
     (auto simp: names_offender_def range_ok_def Let_def split: option.splits if_splits)

lemma on_save_accepts:
  "valid_cidr_form lib n v u \<Longrightarrow>
   on_save lib n v u = Inr (strip n, \<lparr>cidr = YStr (strip v), used_ips = used_ips_lines u\<rparr>)"
  by (auto simp: on_save_def valid_cidr_form_def Let_def check_ranges_ok)

lemma on_save_rejects:
  "\<not> valid_cidr_form lib n v u \<Longrightarrow> \<exists>e. on_save lib n v u = Inl e \<and> error_fits lib n v u e"
  by (auto simp: on_save_def valid_cidr_form_def error_fits_def Let_def check_ranges_None
       dest: check_ranges_Some split: option.splits)

text \<open>
  C5. A form that is valid is accepted, with the stripped name, the stripped cidr and the
  non-blank stripped lines as the block; a form that is not valid is rejected with the error
  that fits it (naming the field, the cidr, the range or the address at fault), and the
  screen that submitted it is unchanged.
\<close>

theorem cidr_form_accepted_iff_valid:
  "(if valid_cidr_form lib n v u
    then on_save lib n v u
           = Inr (strip n, \<lparr>cidr = YStr (strip v), used_ips = used_ips_lines u\<rparr>)
    else \<exists>e. on_save lib n v u = Inl e \<and> error_fits lib n v u e \<and>
             submit_cidr_form lib n v u s = (Some e, s))"
proof (cases "valid_cidr_form lib n v u")
  case True
  then show ?thesis by (simp add: on_save_accepts)
next
  case False
  then obtain e where "on_save lib n v u = Inl e" and "error_fits lib n v u e"
    using on_save_rejects by blast
  with False show ?thesis by (simp add: submit_cidr_form_def)
qed

theorem cidr_form_accepted_iff_valid_witness:
  "\<not> valid_cidr_form ipv4 ''mgmt'' ''10.0.1.0/24'' ''10.0.0.5,10.0.0.10'' \<and>
   on_save ipv4 ''mgmt'' ''10.0.1.0/24'' ''10.0.0.5,10.0.0.10''
     = Inl (Range_outside_cidr ''10.0.0.5,10.0.0.10'' ''10.0.1.0/24'') \<and>
   submit_cidr_form ipv4 ''mgmt'' ''10.0.1.0/24'' ''10.0.0.5,10.0.0.10'' mgmt_screen
     = (Some (Range_outside_cidr ''10.0.0.5,10.0.0.10'' ''10.0.1.0/24''), mgmt_screen) \<and>
   valid_cidr_form ipv4 ''mgmt'' ''10.0.0.0/16'' ''10.0.0.5,10.0.0.10'' \<and>
   on_save ipv4 ''mgmt'' ''10.0.0.0/16'' ''10.0.0.5,10.0.0.10''
     = Inr (''mgmt'', \<lparr>cidr = YStr ''10.0.0.0/16'', used_ips = [''10.0.0.5,10.0.0.10'']\<rparr>)"
  using cidr_form_accepted_iff_valid
          [of ipv4 "''mgmt''" "''10.0.1.0/24''" "''10.0.0.5,10.0.0.10''" mgmt_screen]
        cidr_form_accepted_iff_valid
          [of ipv4 "''mgmt''" "''10.0.0.0/16''" "''10.0.0.5,10.0.0.10''" mgmt_screen]
  by (simp add: valid_cidr_form_def range_ok_def ipv4_defs str_defs on_save_def)

subsection \<open>An empty baseline\<close>

lemma reachable_initial_data: "reachable lib s0 s \<Longrightarrow> initial_data s = initial_data s0"
  by (induction rule: reachable.induct)
     (auto simp: submit_cidr_form_def store_cidr_info_def delete_cidr_def add_provider_network_def
        edit_provider_network_def delete_provider_network_def split: sum.splits yaml.splits)

lemma falsy_baseline: "\<not> truthy (initial_data s) \<Longrightarrow> has_unsaved_changes s = Inr False"
  by (simp add: has_unsaved_changes_def)

text \<open>
  C10. When the baseline is empty (\<open>{}\<close> before any load, or a document that is falsy), every
  screen reached by mutations reports no unsaved changes; saving is refused with the file
  and the screen untouched, and leaving the screen pops or exits without the confirmation
  dialog. The generic screen with an empty baseline behaves the same for whatever its
  widgets hold.
\<close>

theorem empty_baseline_never_reports_changes:
  assumes "\<not> truthy (initial_data s0)" and "reachable lib s0 s"
  shows "has_unsaved_changes s = Inr False
       \<and> action_save_configs lib disk f s = (No_changes_to_save, f, s)
       \<and> action_pop_screen s ''pop'' = Inr Pop_screen
       \<and> action_pop_screen s ''quit'' = Inr Exit_app
       \<and> generic_has_unsaved_changes [] current_config = False
       \<and> generic_action_pop_screen [] current_config ''pop'' = Pop_screen
       \<and> generic_action_pop_screen [] current_config ''quit'' = Exit_app"
proof -
  from assms have "\<not> truthy (initial_data s)" by (simp add: reachable_initial_data)
  then have "has_unsaved_changes s = Inr False" by (rule falsy_baseline)
  then show ?thesis
    by (simp add: action_save_configs_def action_pop_screen_def generic_has_unsaved_changes_def
          generic_action_pop_screen_def)
qed

theorem empty_baseline_never_reports_changes_witness:
  "has_unsaved_changes
     (snd (submit_cidr_form ipv4 ''mgmt'' ''10.0.0.0/24'' ''10.0.0.5'' new_screen)) = Inr False
   \<and> cidr_networks (snd (submit_cidr_form ipv4 ''mgmt'' ''10.0.0.0/24'' ''10.0.0.5'' new_screen))
       = [(''mgmt'', \<lparr>cidr = YStr ''10.0.0.0/24'', used_ips = [''10.0.0.5'']\<rparr>)]
   \<and> action_save_configs ipv4 exact_disk None
        (snd (submit_cidr_form ipv4 ''mgmt'' ''10.0.0.0/24'' ''10.0.0.5'' new_screen))
       = (No_changes_to_save, None,
          snd (submit_cidr_form ipv4 ''mgmt'' ''10.0.0.0/24'' ''10.0.0.5'' new_screen))
   \<and> action_pop_screen
        (snd (submit_cidr_form ipv4 ''mgmt'' ''10.0.0.0/24'' ''10.0.0.5'' new_screen)) ''quit''
       = Inr Exit_app"
  using empty_baseline_never_reports_changes
     [of new_screen ipv4
         "snd (submit_cidr_form ipv4 ''mgmt'' ''10.0.0.0/24'' ''10.0.0.5'' new_screen)"
         exact_disk None,
      OF _ reachable.cidr_form [OF reachable.start]]
  by (simp add: new_screen_def submit_cidr_form_def on_save_def store_cidr_info_def
        ipv4_defs str_defs)

subsection \<open>Equality of documents\<close>

lemma py_eq_refl: "py_eq x x"
proof (induction x)
  case (YSeq xs)
  then show ?case by (simp add: list_all_iff zip_same_conv_map)
next
  case (YMap kvs)
  have "case map_of kvs k of None \<Rightarrow> False
        | Some v \<Rightarrow> (case map_of kvs k of None \<Rightarrow> False | Some w \<Rightarrow> py_eq v w)"
    if "k \<in> fst ` set kvs" for k
  proof -
    from that obtain v where v: "map_of kvs k = Some v"
      by (metis domD dom_map_of_conv_image_fst)
    then have "(k, v) \<in> set kvs" by (rule map_of_SomeD)
    with YMap.IH have "py_eq v v" by fastforce
    with v show ?thesis by simp
  qed
  then show ?case by (simp add: list_all_iff)
qed simp_all

lemma py_eq_YMap:
  "py_eq (YMap a) (YMap b) \<longleftrightarrow>
     fst ` set a = fst ` set b \<and>
     (\<forall>k \<in> fst ` set a. \<exists>v w. map_of a k = Some v \<and> map_of b k = Some w \<and> py_eq v w)"
proof -
  have "(case map_of a k of None \<Rightarrow> False
         | Some v \<Rightarrow> (case map_of b k of None \<Rightarrow> False | Some w \<Rightarrow> py_eq v w))
        \<longleftrightarrow> (\<exists>v w. map_of a k = Some v \<and> map_of b k = Some w \<and> py_eq v w)" for k
    by (auto split: option.splits)
  then show ?thesis by (simp add: list_all_iff)
qed

lemma py_eq_zip_strings:
  "length xs = length ys \<Longrightarrow>
   list_all (\<lambda>(a, b). py_eq a b) (zip (map YStr xs) (map YStr ys)) \<longleftrightarrow> xs = ys"
  by (induction xs ys rule: list_induct2) auto

lemma py_eq_strings: "py_eq (YSeq (map YStr xs)) (YSeq (map YStr ys)) \<longleftrightarrow> xs = ys"
  using py_eq_zip_strings [of xs ys] by auto

lemma the_strings_map: "the_strings (map YStr ss) = Some ss"
  by (induction ss) simp_all

lemma py_sorted_strings: "py_sorted (YSeq (map YStr ss)) = Some (map YStr (sort ss))"
  by (simp add: py_sorted_def the_strings_map)

lemma sort_mset_cong: "mset xs = mset ys \<Longrightarrow> sort xs = sort (ys :: 'a::linorder list)"
  by (metis mset_sort properties_for_sort sorted_sort)

lemma keys_update: "fst ` set (AList.update k v al) = insert k (fst ` set al)"
  by (induction al) auto

lemma map_of_key: "k \<in> fst ` set al \<Longrightarrow> \<exists>v. map_of al k = Some v"
  by (metis domD dom_map_of_conv_image_fst)

lemma setdefault_present: "map_of d k = Some w \<Longrightarrow> setdefault d k v = (w, d)"
  by (simp add: setdefault_def)

lemma the_strings_Some: "the_strings xs = Some ss \<Longrightarrow> xs = map YStr ss"
  by (induction xs arbitrary: ss rule: the_strings.induct) auto

lemma py_eq_documents:
  assumes cn: "map_of d ''cidr_networks'' = Some c" "py_eq c c'"
    and go: "map_of d ''global_overrides'' = Some (YMap g)"
    and pn: "map_of g ''provider_networks'' = Some p" "py_eq p p'"
  shows "py_eq (YMap (AList.update ''used_ips'' u d))
           (YMap (AList.update ''global_overrides'' (YMap (AList.update ''provider_networks'' p' g))
              (AList.update ''used_ips'' u (AList.update ''cidr_networks'' c' d))))"
proof -
  have g: "py_eq (YMap g) (YMap (AList.update ''provider_networks'' p' g))"
  proof -
    have "\<exists>v w. map_of g k = Some v \<and>
                map_of (AList.update ''provider_networks'' p' g) k = Some w \<and> py_eq v w"
      if "k \<in> fst ` set g" for k
    proof (cases "k = ''provider_networks''")
      case True
      with pn show ?thesis by (simp add: update_conv')
    next
      case False
      from that obtain v where "map_of g k = Some v" using map_of_key by fastforce
      with False show ?thesis by (simp add: update_conv' py_eq_refl)
    qed
    moreover from pn(1) have "''provider_networks'' \<in> fst ` set g"
      by (metis domI dom_map_of_conv_image_fst)
    then have "fst ` set g = fst ` set (AList.update ''provider_networks'' p' g)"
      by (auto simp: keys_update)
    ultimately show ?thesis by (simp only: py_eq_YMap) blast
  qed
  from cn(1) have k1: "''cidr_networks'' \<in> fst ` set d" by (metis domI dom_map_of_conv_image_fst)
  from go have k2: "''global_overrides'' \<in> fst ` set d" by (metis domI dom_map_of_conv_image_fst)
  let ?a = "AList.update ''used_ips'' u d"
  let ?b = "AList.update ''global_overrides'' (YMap (AList.update ''provider_networks'' p' g))
              (AList.update ''used_ips'' u (AList.update ''cidr_networks'' c' d))"
  have keys: "fst ` set ?a = fst ` set ?b" using k1 k2 by (auto simp: keys_update)
  have "\<exists>v w. map_of ?a k = Some v \<and> map_of ?b k = Some w \<and> py_eq v w" if "k \<in> fst ` set ?a" for k
  proof -
    consider "k = ''used_ips''" | "k = ''global_overrides''" | "k = ''cidr_networks''"
      | "k \<noteq> ''used_ips''" "k \<noteq> ''global_overrides''" "k \<noteq> ''cidr_networks''" by blast
    then show ?thesis
    proof cases
      case 1
      then show ?thesis by (simp add: update_conv' py_eq_refl)
    next
      case 2
      with go g show ?thesis by (simp add: update_conv')
    next
      case 3
      with cn show ?thesis by (simp add: update_conv')
    next
      case 4
      with that have "k \<in> fst ` set d" by (simp add: keys_update)
      then obtain v where "map_of d k = Some v" using map_of_key by fastforce
      with 4 show ?thesis by (simp add: update_conv' py_eq_refl)
    qed
  qed
  with keys show ?thesis by (simp only: py_eq_YMap) blast
qed


lemma unsaved_changes_iff:
  assumes base: "initial_data s = YMap d"
    and cn: "map_of d ''cidr_networks'' = Some c"
    and go: "map_of d ''global_overrides'' = Some (YMap g)"
    and pn: "map_of g ''provider_networks'' = Some p"
    and us: "baseline_ranges d = Some us"
  shows "has_unsaved_changes s
           = Inr (\<not> (py_eq c (YMap (current_cidrs (cidr_networks s))) \<and>
                     py_eq p (provider_networks s) \<and>
                     mset us = mset (current_used_ips (cidr_networks s))))"
proof -
  from cn have ne: "d \<noteq> []" by auto
  let ?cur = "current_used_ips (cidr_networks s)"
  let ?cc = "YMap (current_cidrs (cidr_networks s))"
  let ?u = "YSeq (map YStr (sort ?cur))"
  let ?c2 = "AList.update ''used_ips'' ?u (AList.update ''cidr_networks'' ?cc d)"
  let ?g' = "YMap (AList.update ''provider_networks'' (provider_networks s) g)"
  let ?a = "AList.update ''used_ips'' (YSeq (map YStr (sort us))) d"
  let ?b = "AList.update ''global_overrides'' ?g' ?c2"
  from go have sd: "setdefault ?c2 ''global_overrides'' (YMap []) = (YMap g, ?c2)"
    by (simp add: setdefault_present update_conv')
  have hu: "has_unsaved_changes s = Inr (\<not> py_eq (YMap ?a) (YMap ?b))"
  proof (cases "map_of d ''used_ips''")
    case None
    with us have "us = []" by (simp add: baseline_ranges_def)
    with None base ne sd show ?thesis by (simp add: has_unsaved_changes_def Let_def)
  next
    case (Some v)
    show ?thesis
    proof (cases "v = YNull")
      case True
      with Some us have "us = []" by (simp add: baseline_ranges_def)
      with True Some base ne sd show ?thesis by (simp add: has_unsaved_changes_def Let_def)
    next
      case False
      with Some us obtain xs where v: "v = YSeq xs" and "the_strings xs = Some us"
        by (auto simp: baseline_ranges_def split: yaml.splits)
      then have "v = YSeq (map YStr us)" by (simp add: the_strings_Some)
      with Some base ne sd show ?thesis
        by (simp add: has_unsaved_changes_def Let_def py_sorted_strings)
    qed
  qed
  have iff: "py_eq (YMap ?a) (YMap ?b) \<longleftrightarrow>
          py_eq c ?cc \<and> py_eq p (provider_networks s) \<and> mset us = mset ?cur"
  proof
    assume eq: "py_eq (YMap ?a) (YMap ?b)"
    then have all: "\<And>k. k \<in> fst ` set ?a \<Longrightarrow>
        \<exists>v w. map_of ?a k = Some v \<and> map_of ?b k = Some w \<and> py_eq v w"
      using py_eq_YMap by blast
    from cn have "''cidr_networks'' \<in> fst ` set ?a"
      by (metis domI dom_map_of_conv_image_fst keys_update insertI2)
    from all [OF this] cn have 1: "py_eq c ?cc" by (simp add: update_conv')
    have "''used_ips'' \<in> fst ` set ?a" by (simp add: keys_update)
    from all [OF this] have "py_eq (YSeq (map YStr (sort us))) ?u" by (simp add: update_conv')
    then have "sort us = sort ?cur" by (simp only: py_eq_strings)
    then have 2: "mset us = mset ?cur" by (metis mset_sort)
    from go have "''global_overrides'' \<in> fst ` set ?a"
      by (metis domI dom_map_of_conv_image_fst keys_update insertI2)
    from all [OF this] go have "py_eq (YMap g) ?g'" by (simp add: update_conv')
    then have "\<And>k. k \<in> fst ` set g \<Longrightarrow>
        \<exists>v w. map_of g k = Some v \<and>
          map_of (AList.update ''provider_networks'' (provider_networks s) g) k = Some w \<and> py_eq v w"
      using py_eq_YMap by blast
    moreover from pn have "''provider_networks'' \<in> fst ` set g"
      by (metis domI dom_map_of_conv_image_fst)
    ultimately have 3: "py_eq p (provider_networks s)" using pn by (fastforce simp: update_conv')
    from 1 2 3 show "py_eq c ?cc \<and> py_eq p (provider_networks s) \<and> mset us = mset ?cur" by simp
  next
    assume a: "py_eq c ?cc \<and> py_eq p (provider_networks s) \<and> mset us = mset ?cur"
    then have "mset us = mset ?cur" by simp
    then have "sort us = sort ?cur" by (rule sort_mset_cong)
    moreover from a have a1: "py_eq c ?cc" and a2: "py_eq p (provider_networks s)" by simp_all
    have "py_eq (YMap (AList.update ''used_ips'' ?u d)) (YMap ?b)"
      using cn a1 go pn a2 by (rule py_eq_documents)
    ultimately show "py_eq (YMap ?a) (YMap ?b)" by simp
  qed
  show ?thesis by (simp only: hu iff)
qed

subsection \<open>The association of ranges with blocks\<close>

lemma hd_range_parts: "hd (range_parts r) = first_ip_str r"
  by (simp add: range_parts_def first_ip_str_def hd_map split_on_nonempty)

lemma cidr_net_objects_iff:
  "(n, net) \<in> set (cidr_net_objects lib raw) \<longleftrightarrow> (\<exists>c. (n, c) \<in> set raw \<and> ip_network lib c = Some net)"
  by (induction raw) (auto split: option.splits)

lemma find_network_Some:
  "find_network lib nets ip = Some n \<Longrightarrow> \<exists>net. (n, net) \<in> set nets \<and> contains lib net ip"
  by (induction nets) (auto split: if_splits)

lemma find_network_None:
  "find_network lib nets ip = None \<longleftrightarrow> (\<forall>(n, net) \<in> set nets. \<not> contains lib net ip)"
  by (induction lib nets ip rule: find_network.induct) auto


lemma distinct_fold_update:
  "distinct (map fst acc) \<Longrightarrow> distinct (map fst (fold (\<lambda>(k, v). AList.update k v) xs acc))"
  by (induction xs arbitrary: acc) (auto simp: distinct_update)


lemma distinct_dict_update_empty: "distinct (map fst (dict_update [] xs))"
  by (simp add: dict_update_def distinct_fold_update)

lemma names_append_used_ip: "map fst (append_used_ip n r cs) = map fst cs"
  by (induction cs) (auto simp: append_used_ip_def)


lemma current_used_ips_Nil [simp]: "current_used_ips [] = []"
  by (simp add: current_used_ips_def)

lemma current_used_ips_Cons [simp]:
  "current_used_ips ((name, data) # cs) = used_ips data @ current_used_ips cs"
  by (simp add: current_used_ips_def)

lemma append_used_ip_Nil [simp]: "append_used_ip n r [] = []"
  by (simp add: append_used_ip_def)

lemma append_used_ip_Cons [simp]:
  "append_used_ip n r ((name, data) # cs) =
     (if name = n then (name, data\<lparr>used_ips := used_ips data @ [r]\<rparr>) # cs
      else (name, data) # append_used_ip n r cs)"
  by (simp add: append_used_ip_def)


lemma used_append_used_ip_subset:
  "set (current_used_ips (append_used_ip n r cs)) \<subseteq> insert r (set (current_used_ips cs))"
proof (induction cs)
  case Nil
  then show ?case by simp
next
  case (Cons x cs)
  obtain name data where x: "x = (name, data)" by (cases x)
  show ?case
  proof (cases "name = n")
    case True
    with x show ?thesis by auto
  next
    case False
    with x Cons.IH show ?thesis by auto
  qed
qed


lemma associate_subset:
  "associate lib nets items cs = Inr cs' \<Longrightarrow>
   set (current_used_ips cs') \<subseteq>
     set (current_used_ips cs) \<union> {r. YStr r \<in> set items \<and> assigned lib nets r}"
proof (induction lib nets items cs rule: associate.induct)
  case (2 lib nets r rest cs)
  show ?case
  proof (cases "ip_address lib (first_ip_str r)")
    case None
    with 2 show ?thesis by auto
  next
    case (Some ip)
    show ?thesis
    proof (cases "find_network lib nets ip")
      case None
      with Some 2 show ?thesis by auto
    next
      case (Some n)
      with \<open>ip_address lib (first_ip_str r) = Some ip\<close> 2
      have "set (current_used_ips cs') \<subseteq>
              set (current_used_ips (append_used_ip n r cs)) \<union>
              {r. YStr r \<in> set rest \<and> assigned lib nets r}" by simp
      moreover have "assigned lib nets r"
        using Some \<open>ip_address lib (first_ip_str r) = Some ip\<close> by (simp add: assigned_def)
      ultimately show ?thesis using used_append_used_ip_subset [of n r cs] by auto
    qed
  qed
qed auto


subsection \<open>Loading and saving, taken apart\<close>

lemma load_Loaded:
  assumes "load_configs lib f s = (Loaded, s')"
  shows "\<exists>d g raw items cs.
           f = Some (Parsed (YMap d)) \<and>
           get_default d ''global_overrides'' (YMap []) = YMap g \<and>
           get_default d ''cidr_networks'' (YMap []) = YMap raw \<and>
           py_iter (get_default d ''used_ips'' (YSeq [])) = Some items \<and>
           associate lib (cidr_net_objects lib raw) items (processed_cidrs raw) = Inr cs \<and>
           s' = s\<lparr>initial_data := YMap d,
                  provider_networks := get_default g ''provider_networks'' (YSeq []),
                  cidr_networks := cs\<rparr>"
  using assms
  by (auto simp: load_configs_def Let_def
      split: option.splits content.splits yaml.splits sum.splits)

lemma set_update_subset: "set (AList.update k v al) \<subseteq> insert (k, v) (set al)"
  by (induction al) auto

lemma set_fold_update_subset:
  "set (fold (\<lambda>(k, v). AList.update k v) xs acc) \<subseteq> set xs \<union> set acc"
proof (induction xs arbitrary: acc)
  case Nil
  then show ?case by simp
next
  case (Cons x xs)
  obtain k v where x: "x = (k, v)" by (cases x)
  have "set (fold (\<lambda>(k, v). AList.update k v) xs (AList.update k v acc))
          \<subseteq> set xs \<union> set (AList.update k v acc)" by (rule Cons.IH)
  with x show ?case using set_update_subset [of k v acc] by auto
qed

lemma no_used_ips_yet: "(\<forall>(name, data) \<in> set cs. used_ips data = []) \<Longrightarrow> current_used_ips cs = []"
  by (induction cs) auto

lemma processed_cidrs_empty: "current_used_ips (processed_cidrs raw) = []"
proof -
  have "set (processed_cidrs raw) \<subseteq> set (map (\<lambda>(name, v). (name, \<lparr>cidr = v, used_ips = []\<rparr>)) raw)"
    using set_fold_update_subset [of "map (\<lambda>(name, v). (name, \<lparr>cidr = v, used_ips = []\<rparr>)) raw" "[]"]
    by (simp add: processed_cidrs_def dict_of_def)
  then have "\<forall>(name, data) \<in> set (processed_cidrs raw). used_ips data = []" by auto
  then show ?thesis by (rule no_used_ips_yet)
qed

lemma orphaned_not_assigned:
  assumes "orphaned lib d r" and "get_default d ''cidr_networks'' (YMap []) = YMap raw"
  shows "\<not> assigned lib (cidr_net_objects lib raw) r"
proof -
  from assms obtain ip where ip: "ip_address lib (first_ip_str r) = Some ip"
    and no: "\<forall>(name, c) \<in> set raw. \<forall>network. ip_network lib c = Some network \<longrightarrow>
               \<not> contains lib network ip"
    by (auto simp: orphaned_def)
  have "\<forall>(n, net) \<in> set (cidr_net_objects lib raw). \<not> contains lib net ip"
    using no by (fastforce simp: cidr_net_objects_iff)
  then have "find_network lib (cidr_net_objects lib raw) ip = None"
    by (simp add: find_network_None)
  with ip show ?thesis by (simp add: assigned_def)
qed

lemma in_current_used_ips:
  "r \<in> set (current_used_ips cs) \<longleftrightarrow> (\<exists>(name, data) \<in> set cs. r \<in> set (used_ips data))"
  by (induction cs) auto

lemma orphan_absent_after_load:
  assumes "load_configs lib (Some (Parsed (YMap d))) s = (Loaded, s')" and "orphaned lib d r"
  shows "r \<notin> set (current_used_ips (cidr_networks s'))"
proof -
  from assms(1) obtain raw items cs where
    raw: "get_default d ''cidr_networks'' (YMap []) = YMap raw" and
    as: "associate lib (cidr_net_objects lib raw) items (processed_cidrs raw) = Inr cs" and
    cs: "cidr_networks s' = cs"
    using load_Loaded [OF assms(1)] by auto
  from as have "set (current_used_ips cs) \<subseteq>
      set (current_used_ips (processed_cidrs raw)) \<union>
      {r. YStr r \<in> set items \<and> assigned lib (cidr_net_objects lib raw) r}"
    by (rule associate_subset)
  with orphaned_not_assigned [OF assms(2) raw] cs show ?thesis
    by (auto simp: processed_cidrs_empty)
qed

lemma changed_when_range_missing:
  assumes base: "initial_data s = YMap d"
    and us: "map_of d ''used_ips'' = Some (YSeq (map YStr rs))"
    and r: "r \<in> set rs" "r \<notin> set (current_used_ips (cidr_networks s))"
    and go: "get_default d ''global_overrides'' (YMap []) = YMap g"
  shows "has_unsaved_changes s = Inr True"
proof -
  from us have ne: "d \<noteq> []" by auto
  let ?u = "YSeq (map YStr (sort (current_used_ips (cidr_networks s))))"
  let ?c2 = "AList.update ''used_ips'' ?u
               (AList.update ''cidr_networks'' (YMap (current_cidrs (cidr_networks s))) d)"
  obtain c3 where sd: "setdefault ?c2 ''global_overrides'' (YMap []) = (YMap g, c3)"
    and c3: "map_of c3 ''used_ips'' = Some ?u"
    using go by (auto simp: setdefault_def get_default_def update_conv' split: option.splits)
  let ?a = "AList.update ''used_ips'' (YSeq (map YStr (sort rs))) d"
  let ?b = "AList.update ''global_overrides''
              (YMap (AList.update ''provider_networks'' (provider_networks s) g)) c3"
  have "\<not> py_eq (YMap ?a) (YMap ?b)"
  proof
    assume "py_eq (YMap ?a) (YMap ?b)"
    then have "\<forall>k \<in> fst ` set ?a. \<exists>v w. map_of ?a k = Some v \<and> map_of ?b k = Some w \<and> py_eq v w"
      using py_eq_YMap by blast
    moreover have "''used_ips'' \<in> fst ` set ?a" by (simp add: keys_update)
    ultimately obtain v w where "map_of ?a ''used_ips'' = Some v"
      "map_of ?b ''used_ips'' = Some w" "py_eq v w" by blast
    with c3 have "py_eq (YSeq (map YStr (sort rs))) ?u" by (simp add: update_conv')
    then have "sort rs = sort (current_used_ips (cidr_networks s))" by (simp only: py_eq_strings)
    then have "set rs = set (current_used_ips (cidr_networks s))" by (metis set_sort)
    with r show False by simp
  qed
  with base ne sd us show ?thesis
    by (simp add: has_unsaved_changes_def Let_def py_sorted_strings)
qed

lemma associate_Inr_strings: "associate lib nets items cs = Inr cs' \<Longrightarrow> \<exists>rs. items = map YStr rs"
proof (induction lib nets items cs rule: associate.induct)
  case (1 lib nets cs)
  then show ?case by simp
next
  case (2 lib nets r rest cs)
  then have "\<exists>rs. rest = map YStr rs" by (auto split: option.splits)
  then obtain rs where "rest = map YStr rs" by blast
  then have "YStr r # rest = map YStr (r # rs)" by simp
  then show ?case by (rule exI)
qed simp_all

lemma orphan_makes_baseline_differ:
  assumes load: "load_configs lib (Some (Parsed (YMap d))) s = (Loaded, s')"
    and orph: "orphaned lib d r"
    and listed: "map_of d ''used_ips'' = Some (YSeq xs)" "YStr r \<in> set xs"
  shows "has_unsaved_changes s' = Inr True"
proof -
  from load_Loaded [OF load] obtain g raw items cs where
    go: "get_default d ''global_overrides'' (YMap []) = YMap g" and
    it: "py_iter (get_default d ''used_ips'' (YSeq [])) = Some items" and
    as: "associate lib (cidr_net_objects lib raw) items (processed_cidrs raw) = Inr cs" and
    s': "s' = s\<lparr>initial_data := YMap d,
                provider_networks := get_default g ''provider_networks'' (YSeq []),
                cidr_networks := cs\<rparr>"
    by auto
  from it listed have "items = xs" by (simp add: get_default_def)
  with as obtain rs where rs: "xs = map YStr rs" using associate_Inr_strings by blast
  with listed have "r \<in> set rs" by auto
  moreover have "r \<notin> set (current_used_ips (cidr_networks s'))"
    using load orph by (rule orphan_absent_after_load)
  moreover from s' have "initial_data s' = YMap d" by simp
  ultimately show ?thesis using listed(1) rs go
    by (auto intro: changed_when_range_missing)
qed

subsection \<open>The invariant of the block collection\<close>

lemma append_used_ip_distinct:
  "distinct (map fst cs) \<Longrightarrow>
   append_used_ip n r cs =
     map (\<lambda>(name, data). if name = n then (name, data\<lparr>used_ips := used_ips data @ [r]\<rparr>)
                            else (name, data)) cs"
proof (induction cs)
  case Nil
  then show ?case by simp
next
  case (Cons x cs)
  obtain name data where x: "x = (name, data)" by (cases x)
  show ?case
  proof (cases "name = n")
    case True
    with Cons.prems x have "n \<notin> fst ` set cs" by auto
    then have "map (\<lambda>(name, data). if name = n then (name, data\<lparr>used_ips := used_ips data @ [r]\<rparr>)
                            else (name, data)) cs = cs"
      by (intro map_idI) force
    with True x show ?thesis by simp
  next
    case False
    with Cons x show ?thesis by simp
  qed
qed

lemma range_fits_block:
  "ranges_in_blocks lib cs \<Longrightarrow> (name, data) \<in> set cs \<Longrightarrow> q \<in> set (used_ips data) \<Longrightarrow>
   \<exists>network ip. ip_network lib (cidr data) = Some network \<and>
                ip_address lib (first_ip_str q) = Some ip \<and> contains lib network ip"
  unfolding ranges_in_blocks_def by blast

lemma append_used_ip_keeps_invariant:
  assumes inv: "ranges_in_blocks lib cs" and nm: "nets_match lib nets cs"
    and ip: "ip_address lib (first_ip_str r) = Some ip" and n: "find_network lib nets ip = Some n"
  shows "ranges_in_blocks lib (append_used_ip n r cs) \<and> nets_match lib nets (append_used_ip n r cs)"
proof -
  from inv have d: "distinct (map fst cs)" by (simp add: ranges_in_blocks_def)
  let ?g = "\<lambda>data. data\<lparr>used_ips := used_ips data @ [r]\<rparr>"
  let ?f = "\<lambda>(name, data). if name = n then (name, ?g data) else (name, data)"
  have eq: "append_used_ip n r cs = map ?f cs" using d by (rule append_used_ip_distinct)
  from n obtain net where net: "(n, net) \<in> set nets" "contains lib net ip"
    using find_network_Some by fastforce
  from nm net(1) obtain data0 where d0: "(n, data0) \<in> set cs" "ip_network lib (cidr data0) = Some net"
    unfolding nets_match_def by blast
  have same: "data = data0" if "(n, data) \<in> set cs" for data
    using d d0(1) that by (meson eq_key_imp_eq_value)
  have fits: "\<exists>network ip. ip_network lib (cidr data') = Some network \<and>
                ip_address lib (first_ip_str q) = Some ip \<and> contains lib network ip"
    if mem: "(name, data') \<in> set (map ?f cs)" and q: "q \<in> set (used_ips data')" for name data' q
  proof -
    from mem obtain name0 data where m: "(name0, data) \<in> set cs" and x: "(name, data') = ?f (name0, data)"
      by auto
    show ?thesis
    proof (cases "name0 = n")
      case True
      with m same have dd: "data = data0" by simp
      from True x have d': "data' = ?g data" by simp
      with q have "q \<in> set (used_ips data) \<or> q = r" by auto
      then show ?thesis
      proof
        assume "q \<in> set (used_ips data)"
        with inv m have "\<exists>network ip. ip_network lib (cidr data) = Some network \<and>
                ip_address lib (first_ip_str q) = Some ip \<and> contains lib network ip"
          by (rule range_fits_block)
        with d' show ?thesis by simp
      next
        assume "q = r"
        with d' dd d0(2) ip net(2) show ?thesis by simp
      qed
    next
      case False
      with x have "data' = data" by simp
      with inv m q show ?thesis using range_fits_block by blast
    qed
  qed
  have dist: "distinct (map fst (map ?f cs))"
  proof -
    have "map fst (map ?f cs) = map fst cs" by (metis eq names_append_used_ip)
    with d show ?thesis by (simp only:)
  qed
  have rib: "ranges_in_blocks lib (map ?f cs)"
    unfolding ranges_in_blocks_def using dist fits by blast
  have "\<exists>data. (m, data) \<in> set (map ?f cs) \<and> ip_network lib (cidr data) = Some net'"
    if "(m, net') \<in> set nets" for m net'
  proof -
    from nm that obtain data where md: "(m, data) \<in> set cs" "ip_network lib (cidr data) = Some net'"
      unfolding nets_match_def by blast
    from md(1) have in': "?f (m, data) \<in> set (map ?f cs)" by (simp only: set_map) (rule imageI)
    show ?thesis
    proof (cases "m = n")
      case True
      with in' have "(m, ?g data) \<in> set (map ?f cs)" by simp
      moreover from md(2) have "ip_network lib (cidr (?g data)) = Some net'" by simp
      ultimately show ?thesis by blast
    next
      case False
      with in' have "(m, data) \<in> set (map ?f cs)" by simp
      with md(2) show ?thesis by blast
    qed
  qed
  then have "nets_match lib nets (map ?f cs)" unfolding nets_match_def by blast
  with rib eq show ?thesis by (simp only:)
qed

lemma associate_keeps_invariant:
  "associate lib nets items cs = Inr cs' \<Longrightarrow> ranges_in_blocks lib cs \<Longrightarrow> nets_match lib nets cs \<Longrightarrow>
   ranges_in_blocks lib cs'"
proof (induction lib nets items cs rule: associate.induct)
  case (1 lib nets cs)
  then show ?case by simp
next
  case (2 lib nets r rest cs)
  show ?case
  proof (cases "ip_address lib (first_ip_str r)")
    case None
    with 2 show ?thesis by simp
  next
    case (Some ip)
    note ip = this
    show ?thesis
    proof (cases "find_network lib nets ip")
      case None
      with ip 2 show ?thesis by simp
    next
      case (Some n)
      from append_used_ip_keeps_invariant [OF "2.prems"(2) "2.prems"(3) ip Some]
      have "ranges_in_blocks lib (append_used_ip n r cs)" "nets_match lib nets (append_used_ip n r cs)"
        by simp_all
      with 2 ip Some show ?thesis by simp
    qed
  qed
qed simp_all

lemma processed_cidrs_distinct:
  "distinct (map fst raw) \<Longrightarrow>
   processed_cidrs raw = map (\<lambda>(name, v). (name, \<lparr>cidr = v, used_ips = []\<rparr>)) raw"
proof -
  assume "distinct (map fst raw)"
  then have "distinct (map fst (map (\<lambda>(name, v). (name, \<lparr>cidr = v, used_ips = []\<rparr>)) raw))"
    by (simp add: case_prod_beta comp_def)
  then show ?thesis by (simp add: processed_cidrs_def dict_of_distinct)
qed

lemma processed_cidrs_invariant:
  assumes "distinct (map fst raw)"
  shows "ranges_in_blocks lib (processed_cidrs raw) \<and>
         nets_match lib (cidr_net_objects lib raw) (processed_cidrs raw)"
proof -
  let ?mk = "\<lambda>(name, v). (name, \<lparr>cidr = v, used_ips = []\<rparr>)"
  have p: "processed_cidrs raw = map ?mk raw" using assms by (rule processed_cidrs_distinct)
  have "distinct (map fst (map ?mk raw))" using assms by (simp add: case_prod_beta comp_def)
  moreover have "used_ips data = []" if "(name, data) \<in> set (map ?mk raw)" for name data
    using that by auto
  ultimately have "ranges_in_blocks lib (map ?mk raw)"
    unfolding ranges_in_blocks_def by fastforce
  moreover have "nets_match lib (cidr_net_objects lib raw) (map ?mk raw)"
    unfolding nets_match_def
  proof (intro ballI)
    fix x assume xin: "x \<in> set (cidr_net_objects lib raw)"
    obtain n net where x: "x = (n, net)" by (cases x)
    with xin obtain c where c: "(n, c) \<in> set raw" "ip_network lib c = Some net"
      by (auto simp: cidr_net_objects_iff)
    then have "?mk (n, c) \<in> set (map ?mk raw)" by (simp only: set_map) (rule imageI)
    then have "(n, \<lparr>cidr = c, used_ips = []\<rparr>) \<in> set (map ?mk raw)" by simp
    moreover from c(2) have "ip_network lib (cidr \<lparr>cidr = c, used_ips = []\<rparr>) = Some net" by simp
    ultimately have "\<exists>data. (n, data) \<in> set (map ?mk raw) \<and> ip_network lib (cidr data) = Some net"
      by blast
    with x show "case x of (n, net) \<Rightarrow>
        \<exists>data. (n, data) \<in> set (map ?mk raw) \<and> ip_network lib (cidr data) = Some net"
      by simp
  qed
  ultimately show ?thesis using p by (simp only:)
qed

lemma load_establishes_invariant:
  assumes "load_configs lib (Some (Parsed (YMap d))) s = (Loaded, s')"
    and "distinct_blocks d"
  shows "ranges_in_blocks lib (cidr_networks s')"
proof -
  from load_Loaded [OF assms(1)] obtain raw items cs where
    raw: "get_default d ''cidr_networks'' (YMap []) = YMap raw" and
    as: "associate lib (cidr_net_objects lib raw) items (processed_cidrs raw) = Inr cs" and
    cs: "cidr_networks s' = cs" by auto
  have "distinct (map fst raw)"
  proof (cases "map_of d ''cidr_networks''")
    case None
    with raw show ?thesis by (simp add: get_default_def)
  next
    case (Some w)
    with raw have "map_of d ''cidr_networks'' = Some (YMap raw)" by (simp add: get_default_def)
    with assms(2) show ?thesis by (simp add: distinct_blocks_def)
  qed
  then have "ranges_in_blocks lib (processed_cidrs raw)"
    "nets_match lib (cidr_net_objects lib raw) (processed_cidrs raw)"
    by (simp_all add: processed_cidrs_invariant)
  with as have "ranges_in_blocks lib cs" by (rule associate_keeps_invariant)
  with cs show ?thesis by simp
qed

lemma on_save_Inr:
  assumes "on_save lib n v u = Inr info"
  shows "valid_cidr_form lib n v u \<and>
         info = (strip n, \<lparr>cidr = YStr (strip v), used_ips = used_ips_lines u\<rparr>)"
proof (cases "valid_cidr_form lib n v u")
  case True
  with assms show ?thesis by (simp add: on_save_accepts)
next
  case False
  then obtain e where "on_save lib n v u = Inl e" using on_save_rejects by blast
  with assms show ?thesis by simp
qed

lemma update_keeps_invariant:
  assumes inv: "ranges_in_blocks lib cs"
    and new: "\<forall>q \<in> set (used_ips data). \<exists>network ip. ip_network lib (cidr data) = Some network \<and>
                ip_address lib (first_ip_str q) = Some ip \<and> contains lib network ip"
  shows "ranges_in_blocks lib (AList.update name data cs)"
proof -
  from inv have "distinct (map fst (AList.update name data cs))"
    by (simp add: ranges_in_blocks_def distinct_update)
  moreover have "\<exists>network ip. ip_network lib (cidr data') = Some network \<and>
                ip_address lib (first_ip_str q) = Some ip \<and> contains lib network ip"
    if "(m, data') \<in> set (AList.update name data cs)" "q \<in> set (used_ips data')" for m data' q
  proof -
    from that(1) have "(m, data') = (name, data) \<or> (m, data') \<in> set cs"
      using set_update_subset [of name data cs] by auto
    then show ?thesis
    proof
      assume "(m, data') = (name, data)"
      with new that(2) show ?thesis by auto
    next
      assume "(m, data') \<in> set cs"
      with inv that(2) show ?thesis using range_fits_block by blast
    qed
  qed
  ultimately show ?thesis unfolding ranges_in_blocks_def by blast
qed

lemma submit_keeps_invariant:
  assumes "ranges_in_blocks lib (cidr_networks s)"
  shows "ranges_in_blocks lib (cidr_networks (snd (submit_cidr_form lib n v u s)))"
proof (cases "on_save lib n v u")
  case (Inl e)
  with assms show ?thesis by (simp add: submit_cidr_form_def)
next
  case (Inr info)
  then have valid: "valid_cidr_form lib n v u"
    and info: "info = (strip n, \<lparr>cidr = YStr (strip v), used_ips = used_ips_lines u\<rparr>)"
    using on_save_Inr by blast+
  from valid obtain network where nw: "ip_network lib (YStr (strip v)) = Some network"
    and ok: "\<forall>r \<in> set (used_ips_lines u). range_ok lib network r"
    by (auto simp: valid_cidr_form_def)
  let ?data = "\<lparr>cidr = YStr (strip v), used_ips = used_ips_lines u\<rparr>"
  have "\<forall>q \<in> set (used_ips ?data). \<exists>network ip. ip_network lib (cidr ?data) = Some network \<and>
                ip_address lib (first_ip_str q) = Some ip \<and> contains lib network ip"
    using nw ok by (auto simp: range_ok_def hd_range_parts)
  with assms have "ranges_in_blocks lib (AList.update (strip n) ?data (cidr_networks s))"
    by (rule update_keeps_invariant)
  with Inr info show ?thesis by (simp add: submit_cidr_form_def store_cidr_info_def)
qed

lemma delete_keeps_invariant:
  assumes "ranges_in_blocks lib cs"
  shows "ranges_in_blocks lib (AList.delete name cs)"
proof -
  have sub: "set (AList.delete name cs) \<subseteq> set cs" by (induction cs) auto
  from assms have "distinct (map fst (AList.delete name cs))"
    by (simp add: ranges_in_blocks_def distinct_delete)
  moreover have "\<exists>network ip. ip_network lib (cidr data') = Some network \<and>
                ip_address lib (first_ip_str q) = Some ip \<and> contains lib network ip"
    if "(m, data') \<in> set (AList.delete name cs)" "q \<in> set (used_ips data')" for m data' q
    using that sub assms range_fits_block by blast
  ultimately show ?thesis unfolding ranges_in_blocks_def by blast
qed

lemma reachable_keeps_invariant:
  "reachable lib s0 s \<Longrightarrow> ranges_in_blocks lib (cidr_networks s0) \<Longrightarrow>
   ranges_in_blocks lib (cidr_networks s)"
proof (induction rule: reachable.induct)
  case start
  then show ?case by simp
next
  case (cidr_form s n v u)
  then show ?case by (simp add: submit_keeps_invariant)
next
  case (cidr_deleted s n)
  then show ?case by (simp add: delete_cidr_def delete_keeps_invariant)
next
  case (net_added s x)
  then show ?case by (simp add: add_provider_network_def split: yaml.splits)
next
  case (net_edited s i x)
  then show ?case by (simp add: edit_provider_network_def split: yaml.splits)
next
  case (net_deleted s i)
  then show ?case by (simp add: delete_provider_network_def split: yaml.splits)
qed

subsection \<open>Loading what was saved\<close>





subsection \<open>The examples, evaluated\<close>

lemmas load_defs =
  load_configs_def get_default_def processed_cidrs_def dict_of_def first_ip_str_def
  append_used_ip_def new_screen_def

lemmas change_defs =
  has_unsaved_changes_def current_cidrs_def current_used_ips_def setdefault_def py_sorted_def
  dict_of_def

lemma spec_example_load:
  "load_configs ipv4 (Some (Parsed (YMap spec_example))) new_screen = (Loaded, spec_example_loaded)"
  by (simp add: spec_example_def spec_example_loaded_def load_defs ipv4_defs str_defs)

lemma spec_example_orphan: "orphaned ipv4 spec_example ''192.168.9.9''"
  by (simp add: orphaned_def spec_example_def get_default_def first_ip_str_def ipv4_defs str_defs)

lemma two_blocks_load:
  "load_configs ipv4 (Some (Parsed (YMap two_blocks))) new_screen = (Loaded, two_blocks_loaded)"
  by (simp add: two_blocks_def two_blocks_loaded_def load_defs ipv4_defs str_defs)

lemma two_blocks_unchanged:
  "has_unsaved_changes two_blocks_loaded = Inr False"
  by (simp add: two_blocks_loaded_def two_blocks_def change_defs)

lemma two_blocks_changed:
  "has_unsaved_changes (add_provider_network br_mgmt two_blocks_loaded) = Inr True"
  by (simp add: add_provider_network_def two_blocks_loaded_def two_blocks_def br_mgmt_def
        change_defs)

lemma spec_example_changed: "has_unsaved_changes spec_example_loaded = Inr True"
  by (simp add: spec_example_loaded_def spec_example_def change_defs)

lemma no_overrides_load:
  "load_configs ipv4 (Some (Parsed (YMap no_overrides))) new_screen = (Loaded, no_overrides_loaded)"
  by (simp add: no_overrides_def no_overrides_loaded_def load_defs ipv4_defs str_defs)

lemma set_neq_extra: "x \<in> B \<Longrightarrow> x \<notin> A \<Longrightarrow> A \<noteq> B"
  by auto

lemma no_provider_networks_load:
  "load_configs ipv4 (Some (Parsed (YMap no_provider_networks))) new_screen
     = (Loaded, no_provider_networks_loaded)"
  by (simp add: no_provider_networks_def no_provider_networks_loaded_def load_defs ipv4_defs str_defs)

lemma no_cidr_networks_load:
  "load_configs ipv4 (Some (Parsed (YMap no_cidr_networks))) new_screen
     = (Loaded, no_cidr_networks_loaded)"
  by (simp add: no_cidr_networks_def no_cidr_networks_loaded_def load_defs ipv4_defs str_defs)

lemma no_provider_networks_changed:
  "differs_only_by_order no_provider_networks no_provider_networks_loaded
   \<and> has_unsaved_changes no_provider_networks_loaded = Inr True"
proof -
  have "differs_only_by_order no_provider_networks no_provider_networks_loaded"
    by (simp add: differs_only_by_order_def no_provider_networks_def no_provider_networks_loaded_def
          get_default_def current_cidrs_def dict_of_def baseline_ranges_def)
  moreover have "has_unsaved_changes no_provider_networks_loaded = Inr True"
    by (simp add: no_provider_networks_def no_provider_networks_loaded_def change_defs)
  ultimately show ?thesis by simp
qed

lemma no_cidr_networks_changed:
  "differs_only_by_order no_cidr_networks no_cidr_networks_loaded
   \<and> has_unsaved_changes no_cidr_networks_loaded = Inr True"
proof -
  have "differs_only_by_order no_cidr_networks no_cidr_networks_loaded"
    by (simp add: differs_only_by_order_def no_cidr_networks_def no_cidr_networks_loaded_def
          get_default_def current_cidrs_def dict_of_def baseline_ranges_def)
  moreover have "has_unsaved_changes no_cidr_networks_loaded = Inr True"
  proof -
    have "{''global_overrides'', ''used_ips''}
            \<noteq> {''global_overrides'', ''cidr_networks'', ''used_ips''}"
      by (rule set_neq_extra [of "''cidr_networks''"]) simp_all
    then show ?thesis
      by (simp add: no_cidr_networks_def no_cidr_networks_loaded_def change_defs)
  qed
  ultimately show ?thesis by simp
qed

subsection \<open>Unsaved changes\<close>

text \<open>
  C9 (the claim as stated fails). The document without \<open>global_overrides\<close> loads, and the
  screen it loads to differs from it in nothing, the order of the ranges included; yet
  \<open>has_unsaved_changes\<close> returns \<open>True\<close>: the comparison enters \<open>global_overrides\<close> with
  \<open>provider_networks\<close> into its copy of the baseline, and the baseline does not have them.
  So it is with a document whose \<open>global_overrides\<close> has no \<open>provider_networks\<close>, and with a
  document without \<open>cidr_networks\<close>, which the comparison enters as well.
\<close>

theorem baseline_without_overrides_reports_changes:
  "load_configs ipv4 (Some (Parsed (YMap no_overrides))) new_screen = (Loaded, no_overrides_loaded)
   \<and> differs_only_by_order no_overrides no_overrides_loaded
   \<and> has_unsaved_changes no_overrides_loaded = Inr True
   \<and> load_configs ipv4 (Some (Parsed (YMap no_provider_networks))) new_screen
       = (Loaded, no_provider_networks_loaded)
   \<and> differs_only_by_order no_provider_networks no_provider_networks_loaded
   \<and> has_unsaved_changes no_provider_networks_loaded = Inr True
   \<and> load_configs ipv4 (Some (Parsed (YMap no_cidr_networks))) new_screen
       = (Loaded, no_cidr_networks_loaded)
   \<and> differs_only_by_order no_cidr_networks no_cidr_networks_loaded
   \<and> has_unsaved_changes no_cidr_networks_loaded = Inr True"
proof -
  have "differs_only_by_order no_overrides no_overrides_loaded"
    by (simp add: differs_only_by_order_def no_overrides_def no_overrides_loaded_def
          get_default_def current_cidrs_def dict_of_def baseline_ranges_def)
  moreover have "has_unsaved_changes no_overrides_loaded = Inr True"
  proof -
    have "{''cidr_networks'', ''used_ips''} \<noteq> {''cidr_networks'', ''used_ips'', ''global_overrides''}"
      by (rule set_neq_extra [of "''global_overrides''"]) simp_all
    then show ?thesis
      by (simp add: no_overrides_def no_overrides_loaded_def change_defs)
  qed
  ultimately show ?thesis
    using no_provider_networks_changed no_cidr_networks_changed
    by (simp add: no_overrides_load no_provider_networks_load no_cidr_networks_load)
qed

text \<open>
  C9 (amended). For a baseline that holds \<open>cidr_networks\<close> and
  \<open>global_overrides.provider_networks\<close>: when the screen's collections differ from it at most
  in the order of the used ranges, \<open>has_unsaved_changes\<close> returns \<open>False\<close>, both range lists
  being sorted before the two documents are compared; and when the ranges of the baseline
  are strings and the screen differs in more than their order, it returns \<open>True\<close>.
\<close>

theorem reordered_ranges_are_not_a_change:
  assumes "initial_data s = YMap d" and "holds_both_keys d"
  shows "(differs_only_by_order d s \<longrightarrow> has_unsaved_changes s = Inr False)
       \<and> (baseline_ranges d \<noteq> None \<longrightarrow> \<not> differs_only_by_order d s \<longrightarrow>
            has_unsaved_changes s = Inr True)"
proof -
  from assms(2) obtain c g p where
    cn: "map_of d ''cidr_networks'' = Some c"
    and go: "map_of d ''global_overrides'' = Some (YMap g)"
    and pn: "map_of g ''provider_networks'' = Some p"
    by (auto simp: holds_both_keys_def split: option.splits yaml.splits)
  have d: "differs_only_by_order d s \<longleftrightarrow>
             py_eq c (YMap (current_cidrs (cidr_networks s))) \<and>
             py_eq p (provider_networks s) \<and>
             mset us = mset (current_used_ips (cidr_networks s))"
    if "baseline_ranges d = Some us" for us
    using that cn go pn by (simp add: differs_only_by_order_def get_default_def)
  have "has_unsaved_changes s = Inr (\<not> differs_only_by_order d s)"
    if "baseline_ranges d = Some us" for us
    using unsaved_changes_iff [OF assms(1) cn go pn that] d [OF that] by simp
  moreover have "baseline_ranges d \<noteq> None" if "differs_only_by_order d s"
    using that by (auto simp: differs_only_by_order_def split: option.splits)
  ultimately show ?thesis by auto
qed

theorem reordered_ranges_are_not_a_change_witness:
  "initial_data two_blocks_loaded = YMap two_blocks
   \<and> holds_both_keys two_blocks
   \<and> baseline_ranges two_blocks = Some [''10.0.1.5'', ''10.0.0.5'']
   \<and> current_used_ips (cidr_networks two_blocks_loaded) = [''10.0.0.5'', ''10.0.1.5'']
   \<and> differs_only_by_order two_blocks two_blocks_loaded
   \<and> has_unsaved_changes two_blocks_loaded = Inr False
   \<and> \<not> differs_only_by_order two_blocks (add_provider_network br_mgmt two_blocks_loaded)
   \<and> has_unsaved_changes (add_provider_network br_mgmt two_blocks_loaded) = Inr True"
proof -
  have a: "initial_data two_blocks_loaded = YMap two_blocks"
    "initial_data (add_provider_network br_mgmt two_blocks_loaded) = YMap two_blocks"
    by (simp_all add: two_blocks_loaded_def add_provider_network_def)
  have k: "holds_both_keys two_blocks" by (simp add: holds_both_keys_def two_blocks_def)
  have b: "baseline_ranges two_blocks = Some [''10.0.1.5'', ''10.0.0.5'']"
    by (simp add: baseline_ranges_def two_blocks_def)
  have c: "current_used_ips (cidr_networks two_blocks_loaded) = [''10.0.0.5'', ''10.0.1.5'']"
    by (simp add: two_blocks_loaded_def)
  have d: "differs_only_by_order two_blocks two_blocks_loaded"
    by (simp add: differs_only_by_order_def b c)
       (simp add: two_blocks_def two_blocks_loaded_def get_default_def current_cidrs_def dict_of_def)
  have e: "\<not> differs_only_by_order two_blocks (add_provider_network br_mgmt two_blocks_loaded)"
    by (simp add: differs_only_by_order_def two_blocks_def two_blocks_loaded_def
          add_provider_network_def get_default_def)
  from reordered_ranges_are_not_a_change [OF a(1) k]
    reordered_ranges_are_not_a_change [OF a(2) k]
  show ?thesis using a k b c d e by simp
qed

section \<open>Properties of the object store\<close>

subsection \<open>The statements of a save, one by one\<close>

lemma setitem_Inr:
  "setitem h d k v = Inr h' \<longleftrightarrow>
     (\<exists>a. d = PRef a \<and> a < length h \<and>
          h' = h[a := (h ! a)\<lparr>entries := AList.update k v (entries (h ! a))\<rparr>])"
  by (auto simp: setitem_def split: pyval.splits)

lemma getitem_Inr:
  "getitem h d k = Inr v \<longleftrightarrow>
     (\<exists>a. d = PRef a \<and> a < length h \<and> map_of (entries (h ! a)) k = Some v)"
  by (auto simp: getitem_def split: pyval.splits option.splits)

lemma getitem_KeyError:
  "getitem h d k = Inl KeyError \<longleftrightarrow>
     (\<exists>a. d = PRef a \<and> a < length h \<and> map_of (entries (h ! a)) k = None)"
  by (auto simp: getitem_def split: pyval.splits option.splits)

lemma and_then_Inr: "and_then m f = Inr y \<longleftrightarrow> (\<exists>x. m = Inr x \<and> f x = Inr y)"
  by (cases m) (auto simp: and_then_def)

lemma setdefault_dict_Inr:
  "setdefault_dict h d k = Inr (v, h') \<longleftrightarrow>
     (getitem h d k = Inr v \<and> h' = h) \<or>
     (getitem h d k = Inl KeyError \<and> v = PRef (length h) \<and>
      setitem (h @ [plain_dict]) d k (PRef (length h)) = Inr h')"
  by (auto simp: setdefault_dict_def split: sum.splits exn.splits)

lemma ensure_dict_Inr:
  "ensure_dict h d k = Inr h' \<longleftrightarrow>
     ((\<exists>v. getitem h d k = Inr v) \<and> h' = h) \<or>
     (getitem h d k = Inl KeyError \<and> setitem (h @ [plain_dict]) d k (PRef (length h)) = Inr h')"
  by (auto simp: ensure_dict_def split: sum.splits exn.splits)

lemma yaml_set_anchor_Inr:
  "yaml_set_anchor h d name b = Inr h' \<longleftrightarrow>
     (\<exists>a. d = PRef a \<and> a < length h \<and> round_trip (h ! a) \<and>
          h' = h[a := (h ! a)\<lparr>anchor := Some (name, b)\<rparr>])"
  by (auto simp: yaml_set_anchor_def split: pyval.splits)

lemma clear_dict_Inr:
  "clear_dict h d = Inr h' \<longleftrightarrow>
     (\<exists>a. d = PRef a \<and> a < length h \<and> h' = h[a := (h ! a)\<lparr>entries := []\<rparr>])"
  by (auto simp: clear_dict_def split: pyval.splits)

lemma update_dict_Inr:
  "update_dict h d items = Inr h' \<longleftrightarrow>
     (\<exists>a. d = PRef a \<and> a < length h \<and>
          h' = h[a := (h ! a)\<lparr>entries := fold (\<lambda>(k, v). AList.update k v) items (entries (h ! a))\<rparr>])"
  by (auto simp: update_dict_def split: pyval.splits)

lemma update_objects_steps:
  assumes "update_objects h config_data new_cidrs new_used_ips pns = Inr h'"
  shows "\<exists>h1 gv h2 h3 cv h4 c1 h5 c2 h6 c3 h7.
           setitem h config_data ''used_ips'' new_used_ips = Inr h1 \<and>
           setdefault_dict h1 config_data ''global_overrides'' = Inr (gv, h2) \<and>
           ensure_dict h2 config_data ''cidr_networks'' = Inr h3 \<and>
           getitem h3 config_data ''cidr_networks'' = Inr cv \<and>
           setitem h3 gv ''cidr_networks'' cv = Inr h4 \<and>
           getitem h4 config_data ''cidr_networks'' = Inr c1 \<and>
           yaml_set_anchor h4 c1 ''cidr_networks'' True = Inr h5 \<and>
           getitem h5 config_data ''cidr_networks'' = Inr c2 \<and>
           clear_dict h5 c2 = Inr h6 \<and>
           getitem h6 config_data ''cidr_networks'' = Inr c3 \<and>
           update_dict h6 c3 new_cidrs = Inr h7 \<and>
           setitem h7 gv ''provider_networks'' pns = Inr h'"
  using assms unfolding update_objects_def and_then_Inr by (auto simp: and_then_Inr)

subsection \<open>One object under both keys\<close>

text \<open>
  When the statements all succeed, the document \<open>r\<close>, its \<open>global_overrides\<close> \<open>g\<close> and the
  mapping \<open>c\<close> under \<open>cidr_networks\<close> are there afterwards; \<open>c\<close> was an object of the loader
  and is not the document; it carries the anchor; \<open>used_ips\<close> and \<open>provider_networks\<close> are
  entered, and no other object has changed. Where \<open>g\<close> is not \<open>c\<close>, \<open>c\<close> holds the blocks and is
  entered in both; where it is, the entry made under it is gone and \<open>provider_networks\<close>
  stands among the blocks. A \<open>cidr_networks\<close> that was missing is a plain mapping and fails
  in \<open>yaml_set_anchor\<close>; one that is the document itself has lost its own key after \<open>clear\<close>.
\<close>

lemma update_objects_effect:
  assumes upd: "update_objects h config_data new_cidrs new_used_ips pns = Inr h'"
  shows "\<exists>r g c. config_data = PRef r \<and> r < length h \<and> c < length h \<and> g < length h' \<and>
           c \<noteq> r \<and> length h \<le> length h' \<and>
           getitem h config_data ''cidr_networks'' = Inr (PRef c) \<and>
           (getitem h config_data ''global_overrides'' = Inr (PRef g) \<and> g < length h \<or>
            getitem h config_data ''global_overrides'' = Inl KeyError \<and> g = length h) \<and>
           map_of (entries (h' ! r)) ''used_ips'' = Some new_used_ips \<and>
           map_of (entries (h' ! r)) ''cidr_networks'' = Some (PRef c) \<and>
           map_of (entries (h' ! r)) ''global_overrides'' = Some (PRef g) \<and>
           map_of (entries (h' ! g)) ''provider_networks'' = Some pns \<and>
           anchor (h' ! c) = Some (''cidr_networks'', True) \<and>
           (c \<noteq> g \<longrightarrow> entries (h' ! c) = dict_of new_cidrs \<and>
                     map_of (entries (h' ! g)) ''cidr_networks'' = Some (PRef c)) \<and>
           (c = g \<longrightarrow> entries (h' ! c)
                       = AList.update ''provider_networks'' pns (dict_of new_cidrs)) \<and>
           (\<forall>a < length h. a \<noteq> r \<longrightarrow> a \<noteq> g \<longrightarrow> a \<noteq> c \<longrightarrow> h' ! a = h ! a)"
proof -
  from update_objects_steps [OF upd] obtain h1 gv h2 h3 cv h4 c1 h5 c2 h6 c3 h7 where
    s1: "setitem h config_data ''used_ips'' new_used_ips = Inr h1" and
    s2: "setdefault_dict h1 config_data ''global_overrides'' = Inr (gv, h2)" and
    s3: "ensure_dict h2 config_data ''cidr_networks'' = Inr h3" and
    s4: "getitem h3 config_data ''cidr_networks'' = Inr cv" and
    s5: "setitem h3 gv ''cidr_networks'' cv = Inr h4" and
    s6: "getitem h4 config_data ''cidr_networks'' = Inr c1" and
    s7: "yaml_set_anchor h4 c1 ''cidr_networks'' True = Inr h5" and
    s8: "getitem h5 config_data ''cidr_networks'' = Inr c2" and
    s9: "clear_dict h5 c2 = Inr h6" and
    s10: "getitem h6 config_data ''cidr_networks'' = Inr c3" and
    s11: "update_dict h6 c3 new_cidrs = Inr h7" and
    s12: "setitem h7 gv ''provider_networks'' pns = Inr h'"
    by blast
  \<comment> \<open>step 1: the root\<close>
  from s1 obtain r where r: "config_data = PRef r" and rh: "r < length h"
    and h1: "h1 = h[r := (h ! r)\<lparr>entries := AList.update ''used_ips'' new_used_ips (entries (h ! r))\<rparr>]"
    unfolding setitem_Inr by blast
  have l1: "length h1 = length h" by (simp add: h1)
  have e1: "map_of (entries (h1 ! r)) k = map_of (entries (h ! r)) k" if "k \<noteq> ''used_ips''" for k
    using rh that by (simp add: h1 update_conv')
  have o1: "h1 ! b = h ! b" if "b \<noteq> r" for b using that by (simp add: h1)
  have rt1: "round_trip (h1 ! b) = round_trip (h ! b)" for b
    using rh by (cases "b = r") (simp_all add: h1)
  have u1: "map_of (entries (h1 ! r)) ''used_ips'' = Some new_used_ips"
    using rh by (simp add: h1 update_conv')
  \<comment> \<open>step 2: global_overrides\<close>
  have s2': "map_of (entries (h2 ! r)) ''global_overrides'' = Some gv \<and> length h \<le> length h2 \<and>
             map_of (entries (h2 ! r)) ''cidr_networks'' = map_of (entries (h ! r)) ''cidr_networks'' \<and>
             (\<forall>b < length h. round_trip (h2 ! b) = round_trip (h ! b)) \<and>
             (\<forall>b. length h \<le> b \<longrightarrow> b < length h2 \<longrightarrow> \<not> round_trip (h2 ! b)) \<and>
             (getitem h config_data ''global_overrides'' = Inr gv \<and> length h2 = length h \<or>
              getitem h config_data ''global_overrides'' = Inl KeyError \<and> gv = PRef (length h)) \<and>
             map_of (entries (h2 ! r)) ''used_ips'' = Some new_used_ips \<and>
             (\<forall>b < length h. b \<noteq> r \<longrightarrow> h2 ! b = h ! b)"
  proof -
    from s2 consider
      (present) "getitem h1 config_data ''global_overrides'' = Inr gv" "h2 = h1"
      | (absent) "getitem h1 config_data ''global_overrides'' = Inl KeyError" "gv = PRef (length h1)"
          "setitem (h1 @ [plain_dict]) config_data ''global_overrides'' (PRef (length h1)) = Inr h2"
      unfolding setdefault_dict_Inr by blast
    then show ?thesis
    proof cases
      case present
      from present(1) have "map_of (entries (h1 ! r)) ''global_overrides'' = Some gv"
        by (simp add: r getitem_Inr)
      moreover from this have "getitem h config_data ''global_overrides'' = Inr gv"
        using rh by (simp add: r getitem_Inr e1)
      ultimately show ?thesis using present(2) l1 rt1 u1 o1 by (simp add: e1)
    next
      case absent
      from absent(3) have h2: "h2 = (h1 @ [plain_dict])[r :=
          ((h1 @ [plain_dict]) ! r)\<lparr>entries := AList.update ''global_overrides'' (PRef (length h1))
             (entries ((h1 @ [plain_dict]) ! r))\<rparr>]"
        by (simp add: r setitem_Inr)
      have a: "(h1 @ [plain_dict]) ! r = h1 ! r" using rh l1 by (simp add: nth_append)
      have "map_of (entries (h2 ! r)) ''global_overrides'' = Some gv"
        using rh l1 absent(2) by (simp add: h2 a update_conv')
      moreover have "length h \<le> length h2" by (simp add: h2 l1)
      moreover have "map_of (entries (h2 ! r)) ''cidr_networks'' = map_of (entries (h ! r)) ''cidr_networks''"
        using rh l1 by (simp add: h2 a update_conv' e1)
      moreover have "round_trip (h2 ! b) = round_trip (h ! b)" if "b < length h" for b
      proof (cases "b = r")
        case True
        with rh l1 show ?thesis by (simp add: h2 a rt1)
      next
        case False
        with that l1 show ?thesis by (simp add: h2 nth_append rt1)
      qed
      moreover have "\<not> round_trip (h2 ! b)" if "length h \<le> b" "b < length h2" for b
      proof -
        from that have "b = length h1" by (simp add: h2 l1)
        with rh l1 show ?thesis by (simp add: h2 nth_append plain_dict_def)
      qed
      moreover have "gv = PRef (length h)" using absent(2) l1 by simp
      moreover from absent(1) have "getitem h config_data ''global_overrides'' = Inl KeyError"
        using rh by (simp add: r getitem_KeyError e1 l1)
      moreover have "map_of (entries (h2 ! r)) ''used_ips'' = Some new_used_ips"
        using rh l1 u1 by (simp add: h2 a update_conv')
      moreover have "h2 ! b = h ! b" if "b < length h" "b \<noteq> r" for b
        using that l1 by (simp add: h2 nth_append o1)
      ultimately show ?thesis by blast
    qed
  qed
  then have go2: "map_of (entries (h2 ! r)) ''global_overrides'' = Some gv"
    and l2: "length h \<le> length h2"
    and cn2: "map_of (entries (h2 ! r)) ''cidr_networks'' = map_of (entries (h ! r)) ''cidr_networks''"
    and rt2: "\<And>b. b < length h \<Longrightarrow> round_trip (h2 ! b) = round_trip (h ! b)"
    and new2: "\<And>b. length h \<le> b \<Longrightarrow> b < length h2 \<Longrightarrow> \<not> round_trip (h2 ! b)"
    and gv: "getitem h config_data ''global_overrides'' = Inr gv \<and> length h2 = length h \<or>
             getitem h config_data ''global_overrides'' = Inl KeyError \<and> gv = PRef (length h)"
    and u2: "map_of (entries (h2 ! r)) ''used_ips'' = Some new_used_ips"
    and o2: "\<And>b. b < length h \<Longrightarrow> b \<noteq> r \<Longrightarrow> h2 ! b = h ! b"
    by blast+
  from rh l2 have rh2: "r < length h2" by simp
  \<comment> \<open>steps 4 to 7 need the target of the anchor to be a round-trip object\<close>
  from s5 obtain g where g: "gv = PRef g" and gh3: "g < length h3"
    and h4: "h4 = h3[g := (h3 ! g)\<lparr>entries := AList.update ''cidr_networks'' cv (entries (h3 ! g))\<rparr>]"
    unfolding setitem_Inr by blast
  have l4: "length h4 = length h3" by (simp add: h4)
  have rt4: "round_trip (h4 ! b) = round_trip (h3 ! b)" for b
    using gh3 by (cases "b = g") (simp_all add: h4)
  from s4 have rh3: "r < length h3" and cv3: "map_of (entries (h3 ! r)) ''cidr_networks'' = Some cv"
    by (simp_all add: r getitem_Inr)
  have cv4: "map_of (entries (h4 ! r)) ''cidr_networks'' = Some cv"
    using gh3 cv3 by (cases "r = g") (simp_all add: h4 update_conv')
  with s6 have c1: "c1 = cv" by (simp add: r getitem_Inr)
  from s7 c1 obtain c where c: "cv = PRef c" and ch4: "c < length h4" and rtc: "round_trip (h4 ! c)"
    and h5: "h5 = h4[c := (h4 ! c)\<lparr>anchor := Some (''cidr_networks'', True)\<rparr>]"
    unfolding yaml_set_anchor_Inr by blast
  \<comment> \<open>step 3: cidr_networks was there\<close>
  have s3': "h3 = h2 \<and> map_of (entries (h ! r)) ''cidr_networks'' = Some cv"
  proof -
    from s3 consider
      (present) v where "getitem h2 config_data ''cidr_networks'' = Inr v" "h3 = h2"
      | (absent) "getitem h2 config_data ''cidr_networks'' = Inl KeyError"
          "setitem (h2 @ [plain_dict]) config_data ''cidr_networks'' (PRef (length h2)) = Inr h3"
      unfolding ensure_dict_Inr by blast
    then show ?thesis
    proof cases
      case present
      with cv3 cn2 show ?thesis by simp
    next
      case absent
      from absent(2) have h3: "h3 = (h2 @ [plain_dict])[r :=
          ((h2 @ [plain_dict]) ! r)\<lparr>entries := AList.update ''cidr_networks'' (PRef (length h2))
             (entries ((h2 @ [plain_dict]) ! r))\<rparr>]"
        by (simp add: r setitem_Inr)
      have "map_of (entries (h3 ! r)) ''cidr_networks'' = Some (PRef (length h2))"
        using rh2 by (simp add: h3 update_conv')
      with cv3 c have "c = length h2" by simp
      moreover have "\<not> round_trip (h3 ! length h2)"
        using rh2 by (simp add: h3 nth_append plain_dict_def)
      ultimately show ?thesis using rtc rt4 by simp
    qed
  qed
  then have h3: "h3 = h2" and cn: "map_of (entries (h ! r)) ''cidr_networks'' = Some (PRef c)"
    using c by simp_all
  from ch4 l4 h3 have ch2: "c < length h2" by simp
  have ch: "c < length h"
  proof (rule ccontr)
    assume "\<not> c < length h"
    with ch2 have "\<not> round_trip (h2 ! c)" using new2 by simp
    with rtc rt4 h3 show False by simp
  qed
  \<comment> \<open>steps 8 to 11: the object is emptied and refilled\<close>
  have l5: "length h5 = length h4" by (simp add: h5)
  have e5: "entries (h5 ! b) = entries (h4 ! b)" for b
    using ch4 by (cases "b = c") (simp_all add: h5)
  from s8 cv4 have c2: "c2 = PRef c" by (simp add: r getitem_Inr e5 c)
  with s9 have h6: "h6 = h5[c := (h5 ! c)\<lparr>entries := []\<rparr>]" by (simp add: clear_dict_Inr)
  have cr: "c \<noteq> r"
  proof
    assume "c = r"
    with ch4 l5 have "entries (h6 ! r) = []" by (simp add: h6)
    with s10 show False by (simp add: r getitem_Inr)
  qed
  have l6: "length h6 = length h4" by (simp add: h6 l5)
  from s10 cr cv4 have c3: "c3 = PRef c" by (simp add: r getitem_Inr h6 e5 c)
  with s11 have h7: "h7 = h6[c := (h6 ! c)\<lparr>entries :=
        fold (\<lambda>(k, v). AList.update k v) new_cidrs (entries (h6 ! c))\<rparr>]"
    by (simp add: update_dict_Inr)
  have c7: "h7 ! c = (h4 ! c)\<lparr>anchor := Some (''cidr_networks'', True), entries := dict_of new_cidrs\<rparr>"
    using ch4 by (simp add: h7 h6 h5 dict_of_def)
  have o7: "h7 ! b = h4 ! b" if "b \<noteq> c" for b using that by (simp add: h7 h6 h5)
  have l7: "length h7 = length h4" by (simp add: h7 l6)
  \<comment> \<open>step 12: the provider networks\<close>
  from s12 g have h': "h' = h7[g := (h7 ! g)\<lparr>entries :=
        AList.update ''provider_networks'' pns (entries (h7 ! g))\<rparr>]"
    and gh7: "g < length h7" by (simp_all add: setitem_Inr)
  have l': "length h' = length h4" by (simp add: h' l7)
  have g4: "map_of (entries (h4 ! g)) ''cidr_networks'' = Some (PRef c)"
    using gh3 by (simp add: h4 update_conv' c)
  have r4go: "map_of (entries (h4 ! r)) ''global_overrides'' = Some (PRef g)"
    using gh3 go2 h3 g by (cases "r = g") (simp_all add: h4 update_conv')
  have u4: "map_of (entries (h4 ! r)) ''used_ips'' = Some new_used_ips"
    using gh3 u2 h3 by (cases "r = g") (simp_all add: h4 update_conv')
  have fr: "map_of (entries (h' ! r)) ''cidr_networks'' = Some (PRef c)"
    "map_of (entries (h' ! r)) ''global_overrides'' = Some (PRef g)"
    "map_of (entries (h' ! r)) ''used_ips'' = Some new_used_ips"
    using gh7 cr cv4 r4go u4 c by (cases "r = g"; simp add: h' update_conv' o7)+
  have fp: "map_of (entries (h' ! g)) ''provider_networks'' = Some pns"
    using gh7 by (simp add: h' update_conv')
  have fa: "anchor (h' ! c) = Some (''cidr_networks'', True)"
    using gh7 c7 by (cases "c = g") (simp_all add: h')
  have apart: "entries (h' ! c) = dict_of new_cidrs \<and>
      map_of (entries (h' ! g)) ''cidr_networks'' = Some (PRef c)" if "c \<noteq> g"
    using that gh7 c7 g4 by (simp add: h' update_conv' o7)
  have same: "entries (h' ! c) = AList.update ''provider_networks'' pns (dict_of new_cidrs)"
    if "c = g"
    using that gh7 c7 by (simp add: h')
  have frame: "h' ! a = h ! a" if "a < length h" "a \<noteq> r" "a \<noteq> g" "a \<noteq> c" for a
  proof -
    from that have "h' ! a = h4 ! a" by (simp add: h' o7)
    also from that have "\<dots> = h2 ! a" by (simp add: h4 h3)
    also from that have "\<dots> = h ! a" by (simp add: o2)
    finally show ?thesis .
  qed
  have gl: "getitem h config_data ''global_overrides'' = Inr (PRef g) \<and> g < length h \<or>
            getitem h config_data ''global_overrides'' = Inl KeyError \<and> g = length h"
    using gv g gh3 h3 by auto
  have cl: "getitem h config_data ''cidr_networks'' = Inr (PRef c)"
    using rh cn by (simp add: r getitem_Inr)
  from gh3 l4 l' have "g < length h'" by simp
  moreover from l2 h3 l4 l' have "length h \<le> length h'" by simp
  ultimately show ?thesis
    using r rh ch cr cl gl fr fp fa apart same frame by blast
qed

lemma update_objects_shares:
  assumes upd: "update_objects h config_data new_cidrs new_used_ips pns = Inr h'"
    and apart: "getitem h config_data ''global_overrides'' \<noteq> getitem h config_data ''cidr_networks''"
  shows "\<exists>r g c. config_data = PRef r \<and> r < length h' \<and> g < length h' \<and> c < length h' \<and>
           c \<noteq> r \<and> c \<noteq> g \<and>
           map_of (entries (h' ! r)) ''cidr_networks'' = Some (PRef c) \<and>
           map_of (entries (h' ! r)) ''global_overrides'' = Some (PRef g) \<and>
           map_of (entries (h' ! g)) ''cidr_networks'' = Some (PRef c) \<and>
           anchor (h' ! c) = Some (''cidr_networks'', True) \<and>
           entries (h' ! c) = dict_of new_cidrs \<and>
           (getitem h config_data ''global_overrides'' \<noteq> Inr config_data \<longrightarrow> g \<noteq> r)"
proof -
  from update_objects_effect [OF upd] obtain r g c where
    r: "config_data = PRef r" "r < length h" "c < length h" "g < length h'" "c \<noteq> r"
      "length h \<le> length h'"
    and cl: "getitem h config_data ''cidr_networks'' = Inr (PRef c)"
    and gl: "getitem h config_data ''global_overrides'' = Inr (PRef g) \<and> g < length h \<or>
             getitem h config_data ''global_overrides'' = Inl KeyError \<and> g = length h"
    and fr: "map_of (entries (h' ! r)) ''cidr_networks'' = Some (PRef c)"
      "map_of (entries (h' ! r)) ''global_overrides'' = Some (PRef g)"
    and fa: "anchor (h' ! c) = Some (''cidr_networks'', True)"
    and ap: "c \<noteq> g \<longrightarrow> entries (h' ! c) = dict_of new_cidrs \<and>
                     map_of (entries (h' ! g)) ''cidr_networks'' = Some (PRef c)"
    by blast
  from gl cl apart r(3) have cg: "c \<noteq> g" by auto
  from gl r(1,2) have "g \<noteq> r" if "getitem h config_data ''global_overrides'' \<noteq> Inr config_data"
    using that by auto
  moreover from r have "r < length h'" "c < length h'" by simp_all
  ultimately show ?thesis using r cg fr fa ap by blast
qed

subsection \<open>The dump ends\<close>

lemma unseen_mono: "set seen \<subseteq> set seen' \<Longrightarrow> unseen h seen' \<le> unseen h seen"
proof -
  assume sub: "set seen \<subseteq> set seen'"
  have "filter (\<lambda>a. a \<notin> set seen') [0..<length h]
        = filter (\<lambda>a. a \<notin> set seen') (filter (\<lambda>a. a \<notin> set seen) [0..<length h])"
    using sub by (auto intro: filter_cong)
  then show ?thesis
    unfolding unseen_def by (metis length_filter_le)
qed

lemma unseen_less: "a < length h \<Longrightarrow> a \<notin> set seen \<Longrightarrow> unseen h (a # seen) < unseen h seen"
proof -
  assume a: "a < length h" "a \<notin> set seen"
  have "filter (\<lambda>b. b \<notin> set (a # seen)) [0..<length h]
        = filter (\<lambda>b. b \<noteq> a) (filter (\<lambda>b. b \<notin> set seen) [0..<length h])"
    by (auto intro: filter_cong)
  moreover have "a \<in> set (filter (\<lambda>b. b \<notin> set seen) [0..<length h])"
    using a by simp
  ultimately show ?thesis
    unfolding unseen_def by (metis (mono_tags, lifting) length_filter_less)
qed

lemma represent_dom_seen:
  "represent_represent_list_represent_items_dom (Inl (h, seen, v)) \<Longrightarrow>
     set seen \<subseteq> set (snd (represent h seen v))"
  "represent_represent_list_represent_items_dom (Inr (Inl (h, seen, vs))) \<Longrightarrow>
     set seen \<subseteq> set (snd (represent_list h seen vs))"
  "represent_represent_list_represent_items_dom (Inr (Inr (h, seen, kvs))) \<Longrightarrow>
     set seen \<subseteq> set (snd (represent_items h seen kvs))"
proof (induction rule: represent_represent_list_represent_items.pinduct)
  case (1 h seen a)
  then show ?case
    by (auto simp: represent.psimps split: prod.splits)
next
  case (2 h seen vs)
  then show ?case by (auto simp: represent.psimps split: prod.splits)
next
  case (8 h seen v vs)
  obtain n seen1 where r: "represent h seen v = (n, seen1)" by (cases "represent h seen v")
  with 8 have "set seen \<subseteq> set seen1" "set seen1 \<subseteq> set (snd (represent_list h seen1 vs))"
    by auto
  with 8(1) r show ?case by (auto simp: represent_list.psimps split: prod.splits)
next
  case (10 h seen k v kvs)
  obtain n seen1 where r: "represent h seen v = (n, seen1)" by (cases "represent h seen v")
  with 10 have "set seen \<subseteq> set seen1" "set seen1 \<subseteq> set (snd (represent_items h seen1 kvs))"
    by auto
  with 10(1) r show ?case by (auto simp: represent_items.psimps split: prod.splits)
qed (simp_all add: represent.psimps represent_list.psimps represent_items.psimps)

termination represent
proof (relation "inv_image (less_than <*lex*> less_than)
    (\<lambda>x. case x of
       Inl (h, seen, v) \<Rightarrow> (unseen h seen, size v)
     | Inr (Inl (h, seen, vs)) \<Rightarrow> (unseen h seen, size_list size vs)
     | Inr (Inr (h, seen, kvs)) \<Rightarrow> (unseen h seen, size_list (\<lambda>kv. size (snd kv)) kvs))",
    goal_cases)
  case 1
  show ?case by (intro wf_inv_image wf_lex_prod wf_less_than)
next
  case (2 h seen a)
  then show ?case by (simp add: unseen_less)
next
  case (3 h seen vs)
  then show ?case by simp
next
  case (4 h seen v vs)
  then show ?case by simp
next
  case (5 h seen v vs x y)
  from represent_dom_seen(1) [OF 5(2)] 5(1) have "set seen \<subseteq> set y"
    by (metis snd_conv)
  from unseen_mono [OF this, of h] show ?case by auto
next
  case (6 h seen k v kvs)
  then show ?case by simp
next
  case (7 h seen k v kvs x y)
  from represent_dom_seen(1) [OF 7(2)] 7(1) have "set seen \<subseteq> set y"
    by (metis snd_conv)
  from unseen_mono [OF this, of h] show ?case by auto
qed

termination value_of
proof (relation "inv_image (less_than <*lex*> less_than)
    (\<lambda>x. case x of
       Inl (h, inside, v) \<Rightarrow> (unseen h inside, size v)
     | Inr (Inl (h, inside, vs)) \<Rightarrow> (unseen h inside, size_list size vs)
     | Inr (Inr (h, inside, kvs)) \<Rightarrow> (unseen h inside, size_list (\<lambda>kv. size (snd kv)) kvs))",
    goal_cases)
  case 1
  show ?case by (intro wf_inv_image wf_lex_prod wf_less_than)
next
  case (3 h inside a)
  then show ?case by (simp add: unseen_less)
qed simp_all

subsection \<open>What the dump writes for an object\<close>

lemma counted_refl: "counted h a seen seen 0 [] 0"
  by (simp add: counted_def)

lemma counted_seen: "counted h a seen seen' m ms al \<Longrightarrow> set seen \<subseteq> set seen'"
  unfolding counted_def by blast

lemma counted_mappings:
  "counted h a seen seen' m ms al \<Longrightarrow>
     ms = (if a \<in> set seen' \<and> a \<notin> set seen then [anchor (h ! a)] else [])"
  unfolding counted_def by blast

lemma counted_nodes:
  "counted h a seen seen' m ms al \<Longrightarrow>
     length ms + al = m + (\<Sum>b \<in> set seen' - set seen. refs_items a (entries (h ! b)))"
  unfolding counted_def by blast

lemma counted_reached:
  "counted h a seen seen' m ms al \<Longrightarrow> 0 < m \<or> 0 < al \<Longrightarrow> a \<in> set seen'"
  unfolding counted_def by blast

lemma counted_trans:
  assumes "counted h a seen seen1 m1 ms1 al1" and "counted h a seen1 seen2 m2 ms2 al2"
  shows "counted h a seen seen2 (m1 + m2) (ms1 @ ms2) (al1 + al2)"
proof -
  let ?f = "\<lambda>b. refs_items a (entries (h ! b))"
  from assms have sub: "set seen \<subseteq> set seen1" "set seen1 \<subseteq> set seen2"
    by (simp_all add: counted_seen)
  have split: "set seen2 - set seen = (set seen1 - set seen) \<union> (set seen2 - set seen1)"
    using sub by auto
  have "sum ?f (set seen2 - set seen) = sum ?f (set seen1 - set seen) + sum ?f (set seen2 - set seen1)"
    unfolding split by (rule sum.union_disjoint) auto
  moreover from assms have "length ms1 + al1 = m1 + sum ?f (set seen1 - set seen)"
    "length ms2 + al2 = m2 + sum ?f (set seen2 - set seen1)"
    by (simp_all only: counted_nodes)
  ultimately have "length (ms1 @ ms2) + (al1 + al2) = (m1 + m2) + sum ?f (set seen2 - set seen)"
    by simp
  moreover from sub
  have "ms1 @ ms2 = (if a \<in> set seen2 \<and> a \<notin> set seen then [anchor (h ! a)] else [])"
    unfolding counted_mappings [OF assms(1)] counted_mappings [OF assms(2)] by auto
  moreover from sub have "0 < m1 + m2 \<or> 0 < al1 + al2 \<longrightarrow> a \<in> set seen2"
    using counted_reached [OF assms(1)] counted_reached [OF assms(2)] by auto
  ultimately show ?thesis using sub unfolding counted_def by blast
qed

lemma counted_alias:
  "b \<in> set seen \<Longrightarrow> counted h a seen seen (if a = b then 1 else 0) [] (if a = b then 1 else 0)"
  by (auto simp: counted_def)

lemma counted_mapping:
  assumes new: "b \<notin> set seen"
    and rest: "counted h a (b # seen) seen' (refs_items a (entries (h ! b))) ms al"
  shows "counted h a seen seen' (if a = b then 1 else 0) ((if a = b then [anchor (h ! b)] else []) @ ms) al"
proof -
  let ?f = "\<lambda>b. refs_items a (entries (h ! b))"
  from rest have sub: "set (b # seen) \<subseteq> set seen'" by (rule counted_seen)
  with new have split: "set seen' - set seen = insert b (set seen' - set (b # seen))" by auto
  have "sum ?f (set seen' - set seen) = ?f b + sum ?f (set seen' - set (b # seen))"
    unfolding split by (rule sum.insert) auto
  moreover from rest have "length ms + al = ?f b + sum ?f (set seen' - set (b # seen))"
    by (rule counted_nodes)
  ultimately have "length ((if a = b then [anchor (h ! b)] else []) @ ms) + al
      = (if a = b then 1 else 0) + sum ?f (set seen' - set seen)"
    by simp
  moreover from new sub
  have "(if a = b then [anchor (h ! b)] else []) @ ms
      = (if a \<in> set seen' \<and> a \<notin> set seen then [anchor (h ! a)] else [])"
    unfolding counted_mappings [OF rest] by auto
  moreover from sub have "0 < (if a = b then 1 else 0 :: nat) \<or> 0 < al \<longrightarrow> a \<in> set seen'"
    using counted_reached [OF rest] by auto
  ultimately show ?thesis using sub unfolding counted_def by auto
qed

lemma represent_counted:
  "a < length h \<Longrightarrow>
     counted h a seen (snd (represent h seen v)) (refs a v)
       (mappings_of a (fst (represent h seen v))) (aliases_of a (fst (represent h seen v)))"
  "a < length h \<Longrightarrow>
     counted h a seen (snd (represent_list h seen vs)) (sum_list (map (refs a) vs))
       (concat (map (mappings_of a) (fst (represent_list h seen vs))))
       (sum_list (map (aliases_of a) (fst (represent_list h seen vs))))"
  "a < length h \<Longrightarrow>
     counted h a seen (snd (represent_items h seen kvs)) (refs_items a kvs)
       (concat (map (\<lambda>(k, n). mappings_of a n) (fst (represent_items h seen kvs))))
       (sum_list (map (\<lambda>(k, n). aliases_of a n) (fst (represent_items h seen kvs))))"
proof (induction h seen v and h seen vs and h seen kvs
    rule: represent_represent_list_represent_items.induct)
  case (1 h seen b)
  show ?case
  proof (cases "b \<in> set seen")
    case True
    have "counted h a seen seen (if a = b then 1 else 0) [] (if a = b then 1 else 0)"
      using True by (rule counted_alias)
    with True show ?thesis by simp
  next
    case False
    show ?thesis
    proof (cases "b < length h")
      case True
      obtain items seen' where r: "represent_items h (b # seen) (entries (h ! b)) = (items, seen')"
        by (cases "represent_items h (b # seen) (entries (h ! b))")
      from 1 False True r
      have "counted h a (b # seen) seen' (refs_items a (entries (h ! b)))
             (concat (map (\<lambda>(k, n). mappings_of a n) items))
             (sum_list (map (\<lambda>(k, n). aliases_of a n) items))"
        by simp
      from counted_mapping [OF False this] False True r show ?thesis by simp
    next
      case False
      with 1(2) have "a \<noteq> b" by auto
      with False \<open>b \<notin> set seen\<close> show ?thesis by (simp add: counted_refl)
    qed
  qed
next
  case (2 h seen vs)
  then show ?case by (simp add: case_prod_beta)
next
  case (8 h seen v vs)
  obtain n seen1 where r: "represent h seen v = (n, seen1)" by (cases "represent h seen v")
  obtain ns seen2 where rs: "represent_list h seen1 vs = (ns, seen2)"
    by (cases "represent_list h seen1 vs")
  from 8 r rs have "counted h a seen seen1 (refs a v) (mappings_of a n) (aliases_of a n)"
    "counted h a seen1 seen2 (sum_list (map (refs a) vs)) (concat (map (mappings_of a) ns))
       (sum_list (map (aliases_of a) ns))"
    by (simp, metis fst_conv snd_conv)
  from counted_trans [OF this] r rs show ?case by simp
next
  case (10 h seen k v kvs)
  obtain n seen1 where r: "represent h seen v = (n, seen1)" by (cases "represent h seen v")
  obtain ns seen2 where rs: "represent_items h seen1 kvs = (ns, seen2)"
    by (cases "represent_items h seen1 kvs")
  from 10 r rs have "counted h a seen seen1 (refs a v) (mappings_of a n) (aliases_of a n)"
    "counted h a seen1 seen2 (refs_items a kvs) (concat (map (\<lambda>(k, n). mappings_of a n) ns))
       (sum_list (map (\<lambda>(k, n). aliases_of a n) ns))"
    by (simp, metis fst_conv snd_conv)
  from counted_trans [OF this] r rs show ?case by (simp add: refs_items_def)
qed (simp_all add: counted_refl refs_items_def)

lemma refs_items_lookup: "map_of kvs k = Some (PRef a) \<Longrightarrow> 0 < refs_items a kvs"
  by (induction kvs) (auto simp: refs_items_def split: if_splits)

lemma dump_shared:
  assumes r: "r < length h" and g: "g < length h" and c: "c < length h"
    and rg: "r \<noteq> g" and cr: "c \<noteq> r"
    and rc: "map_of (entries (h ! r)) k1 = Some (PRef c)"
    and rg': "map_of (entries (h ! r)) k2 = Some (PRef g)"
    and gc: "map_of (entries (h ! g)) k3 = Some (PRef c)"
  shows "mappings_of c (dump h (PRef r)) = [anchor (h ! c)] \<and> 0 < aliases_of c (dump h (PRef r))"
proof -
  obtain n seen where rep: "represent h [] (PRef r) = (n, seen)"
    by (cases "represent h [] (PRef r)")
  have cnt: "counted h a [] seen (refs a (PRef r)) (mappings_of a n) (aliases_of a n)"
    if "a < length h" for a
    using represent_counted(1) [OF that, of "[]" "PRef r"] rep by simp
  let ?f = "\<lambda>a b. refs_items a (entries (h ! b))"
  have reach: "a \<in> set seen" if "a < length h" "b \<in> set seen" "0 < ?f a b" for a b
  proof -
    have "?f a b \<le> sum (?f a) (set seen)"
      using that(2) by (intro member_le_sum) auto
    with that(3) counted_nodes [OF cnt [OF that(1)]]
    have "0 < length (mappings_of a n) + aliases_of a n" by simp
    then have "mappings_of a n \<noteq> [] \<or> 0 < aliases_of a n" by auto
    then show ?thesis
    proof
      assume "mappings_of a n \<noteq> []"
      with counted_mappings [OF cnt [OF that(1)]] show ?thesis by (auto split: if_splits)
    next
      assume "0 < aliases_of a n"
      with counted_reached [OF cnt [OF that(1)]] show ?thesis by simp
    qed
  qed
  from counted_reached [OF cnt [OF r]] have rs: "r \<in> set seen" by simp
  from reach [OF g rs] rg' have gs: "g \<in> set seen" by (simp add: refs_items_lookup)
  from reach [OF c rs] rc have cs: "c \<in> set seen" by (simp add: refs_items_lookup)
  from counted_mappings [OF cnt [OF c]] cs have ms: "mappings_of c n = [anchor (h ! c)]" by simp
  have "sum (?f c) {r, g} \<le> sum (?f c) (set seen)"
    using rs gs by (intro sum_mono2) auto
  moreover have "sum (?f c) {r, g} = ?f c r + ?f c g" using rg by simp
  moreover have "0 < ?f c r" "0 < ?f c g" using rc gc by (simp_all add: refs_items_lookup)
  ultimately have "2 \<le> sum (?f c) (set seen)" by linarith
  with counted_nodes [OF cnt [OF c]] cr ms have "0 < aliases_of c n" by simp
  with ms rep show ?thesis by (simp add: dump_def)
qed

lemma spec_example_store_written:
  "write_document spec_example_store (PRef 0) [(''mgmt'', PStr ''10.0.0.0/24'')]
     (PList [PStr ''10.0.0.5,10.0.0.10'']) (PList [])
   = Inr (spec_example_store_saved, spec_example_dumped)"
  by (simp add: write_document_def update_objects_def and_then_def setitem_def getitem_def
        setdefault_dict_def ensure_dict_def yaml_set_anchor_def clear_dict_def update_dict_def
        dump_def spec_example_store_def spec_example_store_saved_def spec_example_dumped_def)

section \<open>Properties of a save\<close>

subsection \<open>The screen's values in the store\<close>








subsection \<open>What the statements leave of the document\<close>

lemma write_objects_Inr:
  assumes "write_objects h config_data s = Inr (h', doc)"
  shows "\<exists>items h1 pns h2.
           allocate_items h (current_cidrs (cidr_networks s)) = (items, h1) \<and>
           allocate h1 (provider_networks s) = (pns, h2) \<and>
           update_objects h2 config_data items
             (PList (map PStr (current_used_ips (cidr_networks s)))) pns = Inr h' \<and>
           doc = dump h' config_data"
  using assms
  by (auto simp: write_objects_def write_document_def and_then_Inr split: prod.splits)

lemma save_written:
  assumes "action_save_configs lib disk f s = (Saved out, f', s')"
  shows "\<exists>h config_data h' doc reread.
           f = Some (Objects h config_data) \<and>
           has_unsaved_changes s = Inr True \<and>
           write_objects h config_data s = Inr (h', doc) \<and>
           disk h' config_data = Written reread \<and>
           f' = Some reread \<and>
           (out, s') = load_configs lib (Some (parsed reread)) s"
  using assms
  by (auto simp: action_save_configs_def Let_def
      split: sum.splits bool.splits option.splits document.splits written.splits prod.splits)


lemma write_objects_used_ips:
  assumes "write_objects h config_data s = Inr (h', doc)"
  shows "getitem h' config_data ''used_ips''
           = Inr (PList (map PStr (current_used_ips (cidr_networks s))))"
proof -
  from write_objects_Inr [OF assms] obtain items pns h2 where
    upd: "update_objects h2 config_data items
            (PList (map PStr (current_used_ips (cidr_networks s)))) pns = Inr h'"
    by blast
  from update_objects_effect [OF upd] obtain r where
    "config_data = PRef r" "r < length h2" "length h2 \<le> length h'"
    "map_of (entries (h' ! r)) ''used_ips''
       = Some (PList (map PStr (current_used_ips (cidr_networks s))))"
    by blast
  then show ?thesis by (simp add: getitem_def)
qed


lemma represent_list_strings:
  "represent_list h seen (map PStr ss) = (map (\<lambda>r. ScalarNode (PStr r)) ss, seen)"
  by (induction ss) simp_all

lemma represent_items_strings:
  "map_of kvs k = Some (PList (map PStr ss)) \<Longrightarrow>
     map_of (fst (represent_items h seen kvs)) k
       = Some (SequenceNode (map (\<lambda>r. ScalarNode (PStr r)) ss))"
proof (induction kvs arbitrary: seen)
  case Nil
  then show ?case by simp
next
  case (Cons kv kvs)
  obtain k' v' where kv: "kv = (k', v')" by (cases kv)
  obtain n seen1 where r: "represent h seen v' = (n, seen1)" by (cases "represent h seen v'")
  show ?case
  proof (cases "k = k'")
    case True
    with Cons.prems kv have "v' = PList (map PStr ss)" by simp
    with r have "n = SequenceNode (map (\<lambda>r. ScalarNode (PStr r)) ss)"
      by (simp add: represent_list_strings)
    with True kv r show ?thesis by (simp add: case_prod_beta)
  next
    case False
    with Cons.prems kv have "map_of kvs k = Some (PList (map PStr ss))" by simp
    from Cons.IH [OF this, of seen1] False kv r show ?thesis by (simp add: case_prod_beta)
  qed
qed

lemma write_objects_dumps_used_ips:
  assumes "write_objects h config_data s = Inr (h', doc)"
  shows "\<exists>a anc items. doc = MappingNode a anc items \<and>
           map_of items ''used_ips''
             = Some (SequenceNode (map (\<lambda>r. ScalarNode (PStr r)) (current_used_ips (cidr_networks s))))"
proof -
  from write_objects_Inr [OF assms] obtain items pns h2 where
    upd: "update_objects h2 config_data items
            (PList (map PStr (current_used_ips (cidr_networks s)))) pns = Inr h'"
    and doc: "doc = dump h' config_data"
    by blast
  from update_objects_effect [OF upd] obtain r where
    r: "config_data = PRef r" "r < length h2" "length h2 \<le> length h'"
    and u: "map_of (entries (h' ! r)) ''used_ips''
       = Some (PList (map PStr (current_used_ips (cidr_networks s))))"
    by blast
  from r have "doc = MappingNode r (anchor (h' ! r)) (fst (represent_items h' [r] (entries (h' ! r))))"
    by (simp add: doc dump_def case_prod_beta)
  with represent_items_strings [OF u] show ?thesis by blast
qed

lemma save_writes_current_used_ips:
  assumes "action_save_configs lib disk f s = (Saved out, f', s')"
  shows "\<exists>h config_data h' a anc items.
           f = Some (Objects h config_data) \<and>
           write_objects h config_data s = Inr (h', MappingNode a anc items) \<and>
           map_of items ''used_ips''
             = Some (SequenceNode (map (\<lambda>r. ScalarNode (PStr r)) (current_used_ips (cidr_networks s)))) \<and>
           written_used_ips h config_data s
             = Inr (PList (map PStr (current_used_ips (cidr_networks s))))"
proof -
  from save_written [OF assms] obtain h config_data h' doc where
    f: "f = Some (Objects h config_data)"
    and wr: "write_objects h config_data s = Inr (h', doc)" by blast
  from write_objects_dumps_used_ips [OF wr] obtain a anc items where
    "doc = MappingNode a anc items"
    "map_of items ''used_ips''
       = Some (SequenceNode (map (\<lambda>r. ScalarNode (PStr r)) (current_used_ips (cidr_networks s))))"
    by blast
  moreover from wr write_objects_used_ips [OF wr]
  have "written_used_ips h config_data s
          = Inr (PList (map PStr (current_used_ips (cidr_networks s))))"
    by (simp add: written_used_ips_def)
  ultimately show ?thesis using f wr by blast
qed


subsection \<open>The examples, saved\<close>

lemmas update_defs =
  write_document_def update_objects_def and_then_def setitem_def getitem_def
  setdefault_dict_def ensure_dict_def yaml_set_anchor_def clear_dict_def update_dict_def

lemmas objects_defs =
  write_objects_def write_document_def update_objects_def and_then_def setitem_def getitem_def
  setdefault_dict_def ensure_dict_def yaml_set_anchor_def clear_dict_def update_dict_def
  parsed_def

lemma two_blocks_store_parsed:
  "parsed (Objects two_blocks_store (PRef 0)) = Parsed (YMap two_blocks)"
  by (simp add: parsed_def two_blocks_store_def two_blocks_def)

lemma two_blocks_store_saved_value:
  "value_of two_blocks_store_saved [] (PRef 0) = Some (YMap two_blocks_written)"
  by (simp add: two_blocks_store_saved_def two_blocks_written_def br_mgmt_def)

lemma two_blocks_store_saved_parsed:
  "parsed (Objects two_blocks_store_saved (PRef 0)) = Parsed (YMap two_blocks_written)"
  unfolding parsed_def
  by (simp only: document.case two_blocks_store_saved_value option.case)

lemma two_blocks_written_objects:
  "write_objects two_blocks_store (PRef 0) (add_provider_network br_mgmt two_blocks_loaded)
   = Inr (two_blocks_store_saved, dump two_blocks_store_saved (PRef 0))"
  by (simp add: objects_defs add_provider_network_def two_blocks_loaded_def br_mgmt_def
        current_cidrs_def current_used_ips_def dict_of_def eval_nat_numeral
        two_blocks_store_def two_blocks_store_saved_def)

lemma two_blocks_reload:
  "load_configs ipv4 (Some (Parsed (YMap two_blocks_written)))
     (add_provider_network br_mgmt two_blocks_loaded) = (Loaded, two_blocks_saved_screen)"
  by (simp add: two_blocks_written_def two_blocks_saved_screen_def two_blocks_loaded_def
        add_provider_network_def br_mgmt_def load_defs ipv4_defs str_defs)

lemma two_blocks_save:
  "action_save_configs ipv4 exact_disk (Some (Objects two_blocks_store (PRef 0)))
     (add_provider_network br_mgmt two_blocks_loaded)
   = (Saved Loaded, Some (Objects two_blocks_store_saved (PRef 0)), two_blocks_saved_screen)"
  by (simp add: action_save_configs_def two_blocks_changed two_blocks_written_objects
        exact_disk_def two_blocks_store_saved_parsed two_blocks_reload)

lemma spec_example_store_parsed:
  "parsed (Objects spec_example_store (PRef 0)) = Parsed (YMap spec_example)"
  by (simp add: parsed_def spec_example_store_def spec_example_def)

lemma spec_example_store_saved_value:
  "value_of spec_example_store_saved [] (PRef 0) = Some (YMap spec_example_written)"
  by (simp add: spec_example_store_saved_def spec_example_written_def)

lemma spec_example_store_saved_parsed:
  "parsed (Objects spec_example_store_saved (PRef 0)) = Parsed (YMap spec_example_written)"
  unfolding parsed_def
  by (simp only: document.case spec_example_store_saved_value option.case)

lemma spec_example_written_objects:
  "write_objects spec_example_store (PRef 0) spec_example_loaded
   = Inr (spec_example_store_saved, dump spec_example_store_saved (PRef 0))"
  by (simp add: objects_defs spec_example_loaded_def
        current_cidrs_def current_used_ips_def dict_of_def
        spec_example_store_def spec_example_store_saved_def)

lemma spec_example_reload:
  "load_configs ipv4 (Some (Parsed (YMap spec_example_written))) spec_example_loaded
     = (Loaded, spec_example_saved_screen)"
  by (simp add: spec_example_written_def spec_example_saved_screen_def spec_example_loaded_def
        load_defs ipv4_defs str_defs)

lemma spec_example_save:
  "action_save_configs ipv4 exact_disk (Some (Objects spec_example_store (PRef 0)))
     spec_example_loaded
   = (Saved Loaded, Some (Objects spec_example_store_saved (PRef 0)), spec_example_saved_screen)"
  by (simp add: action_save_configs_def spec_example_changed spec_example_written_objects
        exact_disk_def spec_example_store_saved_parsed spec_example_reload)

lemma lab_submitted:
  "submit_cidr_form ipv4 ''lab'' ''192.168.9.0/24'' ''192.168.9.9'' spec_example_loaded
     = (None, lab_screen)"
  by (simp add: submit_cidr_form_def on_save_def store_cidr_info_def spec_example_loaded_def
        lab_screen_def ipv4_defs str_defs)

lemma lab_written:
  "written_used_ips spec_example_store (PRef 0) lab_screen
     = Inr (PList [PStr ''10.0.0.5,10.0.0.10'', PStr ''192.168.9.9''])"
  by (simp add: written_used_ips_def objects_defs lab_screen_def
        current_cidrs_def current_used_ips_def dict_of_def spec_example_store_def)

lemma lab_saved:
  "fst (action_save_configs ipv4 exact_disk (Some (Objects spec_example_store (PRef 0))) lab_screen)
     = Saved Loaded"
  by (simp add: action_save_configs_def exact_disk_def objects_defs lab_screen_def
        spec_example_def spec_example_store_def change_defs load_defs ipv4_defs str_defs Let_def)




lemma aliased_overrides_parsed:
  "parsed (Objects aliased_overrides_store (PRef 0)) = Parsed (YMap aliased_overrides)"
  by (simp add: parsed_def aliased_overrides_store_def aliased_overrides_def)

lemma aliased_overrides_load:
  "load_configs ipv4 (Some (Parsed (YMap aliased_overrides))) new_screen
     = (Loaded, aliased_overrides_loaded)"
  by (simp add: aliased_overrides_def aliased_overrides_loaded_def load_defs ipv4_defs str_defs)



lemma aliased_overrides_changed: "has_unsaved_changes aliased_overrides_loaded = Inr True"
  by (simp add: aliased_overrides_loaded_def aliased_overrides_def change_defs)

lemma aliased_overrides_written:
  "write_objects aliased_overrides_store (PRef 0) aliased_overrides_loaded
     = Inr (aliased_overrides_saved, dump aliased_overrides_saved (PRef 0))"
  by (simp add: write_objects_def update_defs aliased_overrides_loaded_def current_cidrs_def
        current_used_ips_def dict_of_def aliased_overrides_store_def aliased_overrides_saved_def)


lemma aliased_overrides_saved_parsed:
  "parsed (Objects aliased_overrides_saved (PRef 0))
     = Parsed (YMap
         [(''cidr_networks'',
             YMap [(''mgmt'', YStr ''10.0.0.0/24''), (''provider_networks'', YSeq [])]),
          (''global_overrides'',
             YMap [(''mgmt'', YStr ''10.0.0.0/24''), (''provider_networks'', YSeq [])]),
          (''used_ips'', YSeq [])])"
  by (simp add: parsed_def aliased_overrides_saved_def)

lemma aliased_overrides_resaved:
  "fst (action_save_configs ipv4 exact_disk (Some (Objects aliased_overrides_store (PRef 0)))
          aliased_overrides_loaded) = Saved Loaded
   \<and> fst (snd (action_save_configs ipv4 exact_disk
                  (Some (Objects aliased_overrides_store (PRef 0))) aliased_overrides_loaded))
       = Some (Objects aliased_overrides_saved (PRef 0))"
  unfolding action_save_configs_def exact_disk_def
  by (simp only: aliased_overrides_changed aliased_overrides_written sum.case bool.case
        option.case document.case prod.case written.case Let_def aliased_overrides_saved_parsed)
     (simp add: load_defs ipv4_defs str_defs)

subsection \<open>What a save writes\<close>

text \<open>
  C8. A save that succeeds hands to the dump, as \<open>used_ips\<close> of the document, the
  concatenation of the blocks' derived lists in the order of the block collection, and the
  document dumped has that sequence under \<open>used_ips\<close>. The file order is not kept: the
  two-block document lists \<open>10.0.1.5\<close> before \<open>10.0.0.5\<close>, and the document saved from the
  screen it loads to (after a provider network was added) lists them block by block.
\<close>

theorem save_writes_ranges_grouped_by_block:
  assumes "action_save_configs lib disk f s = (Saved out, f', s')"
  shows "(\<exists>h config_data h' a anc items.
            f = Some (Objects h config_data) \<and>
            write_objects h config_data s = Inr (h', MappingNode a anc items) \<and>
            map_of items ''used_ips''
              = Some (SequenceNode (map (\<lambda>r. ScalarNode (PStr r))
                    (concat (map (\<lambda>(name, data). used_ips data) (cidr_networks s))))) \<and>
            written_used_ips h config_data s
              = Inr (PList (map PStr
                    (concat (map (\<lambda>(name, data). used_ips data) (cidr_networks s))))))
       \<and> parsed (Objects two_blocks_store (PRef 0)) = Parsed (YMap two_blocks)
       \<and> load_configs ipv4 (Some (Parsed (YMap two_blocks))) new_screen = (Loaded, two_blocks_loaded)
       \<and> map_of two_blocks ''used_ips'' = Some (YSeq [YStr ''10.0.1.5'', YStr ''10.0.0.5''])
       \<and> fst (snd (action_save_configs ipv4 exact_disk (Some (Objects two_blocks_store (PRef 0)))
                     (add_provider_network br_mgmt two_blocks_loaded)))
           = Some (Objects two_blocks_store_saved (PRef 0))
       \<and> parsed (Objects two_blocks_store_saved (PRef 0)) = Parsed (YMap two_blocks_written)
       \<and> map_of two_blocks_written ''used_ips'' = Some (YSeq [YStr ''10.0.0.5'', YStr ''10.0.1.5''])"
proof -
  have "\<exists>h config_data h' a anc items.
            f = Some (Objects h config_data) \<and>
            write_objects h config_data s = Inr (h', MappingNode a anc items) \<and>
            map_of items ''used_ips''
              = Some (SequenceNode (map (\<lambda>r. ScalarNode (PStr r))
                    (concat (map (\<lambda>(name, data). used_ips data) (cidr_networks s))))) \<and>
            written_used_ips h config_data s
              = Inr (PList (map PStr
                    (concat (map (\<lambda>(name, data). used_ips data) (cidr_networks s)))))"
    using save_writes_current_used_ips [OF assms] by (simp add: current_used_ips_def)
  moreover have "map_of two_blocks ''used_ips'' = Some (YSeq [YStr ''10.0.1.5'', YStr ''10.0.0.5''])"
    by (simp add: two_blocks_def)
  moreover have "map_of two_blocks_written ''used_ips''
                   = Some (YSeq [YStr ''10.0.0.5'', YStr ''10.0.1.5''])"
    by (simp add: two_blocks_written_def)
  ultimately show ?thesis
    by (simp add: two_blocks_load two_blocks_save two_blocks_store_parsed
          two_blocks_store_saved_parsed)
qed

theorem save_writes_ranges_grouped_by_block_witness:
  "action_save_configs ipv4 exact_disk (Some (Objects two_blocks_store (PRef 0)))
     (add_provider_network br_mgmt two_blocks_loaded)
     = (Saved Loaded, Some (Objects two_blocks_store_saved (PRef 0)), two_blocks_saved_screen)
   \<and> written_used_ips two_blocks_store (PRef 0) (add_provider_network br_mgmt two_blocks_loaded)
       = Inr (PList [PStr ''10.0.0.5'', PStr ''10.0.1.5''])
   \<and> concat (map (\<lambda>(name, data). used_ips data)
        (cidr_networks (add_provider_network br_mgmt two_blocks_loaded)))
       = [''10.0.0.5'', ''10.0.1.5'']"
proof -
  have b: "concat (map (\<lambda>(name, data). used_ips data)
             (cidr_networks (add_provider_network br_mgmt two_blocks_loaded)))
             = [''10.0.0.5'', ''10.0.1.5'']"
    by (simp add: two_blocks_loaded_def add_provider_network_def)
  from save_writes_ranges_grouped_by_block [OF two_blocks_save] two_blocks_save b
  show ?thesis by auto
qed

subsection \<open>Orphaned ranges\<close>

lemma holder_not_declared:
  assumes inv: "ranges_in_blocks lib cs" and orph: "orphaned lib d r"
    and held: "(name, data) \<in> set cs" "r \<in> set (used_ips data)"
    and raw: "get_default d ''cidr_networks'' (YMap []) = YMap raw"
  shows "(name, cidr data) \<notin> set raw"
proof
  assume "(name, cidr data) \<in> set raw"
  from held inv obtain network ip where nw: "ip_network lib (cidr data) = Some network"
    and ip: "ip_address lib (first_ip_str r) = Some ip" and c: "contains lib network ip"
    using range_fits_block by blast
  from orph raw ip have "\<forall>(name, c) \<in> set raw. \<forall>network. ip_network lib c = Some network \<longrightarrow>
               \<not> contains lib network ip"
    by (auto simp: orphaned_def)
  with \<open>(name, cidr data) \<in> set raw\<close> nw c show False by auto
qed

text \<open>
  C2 (the claim as stated fails). The range \<open>192.168.9.9\<close> of the specification's example
  is orphaned. After the load the baseline \<open>initial_data\<close>, a copy of the whole raw document,
  still lists it; and once the form has accepted a block \<open>lab\<close> that contains it, with that
  range, the next save writes it again.
\<close>

theorem orphan_written_after_block_added:
  "orphaned ipv4 spec_example ''192.168.9.9''
   \<and> load_configs ipv4 (Some (Parsed (YMap spec_example))) new_screen = (Loaded, spec_example_loaded)
   \<and> initial_data spec_example_loaded = YMap spec_example
   \<and> map_of spec_example ''used_ips''
       = Some (YSeq [YStr ''10.0.0.5,10.0.0.10'', YStr ''192.168.9.9''])
   \<and> submit_cidr_form ipv4 ''lab'' ''192.168.9.0/24'' ''192.168.9.9'' spec_example_loaded
       = (None, lab_screen)
   \<and> fst (action_save_configs ipv4 exact_disk (Some (Objects spec_example_store (PRef 0)))
            lab_screen) = Saved Loaded
   \<and> written_used_ips spec_example_store (PRef 0) lab_screen
       = Inr (PList [PStr ''10.0.0.5,10.0.0.10'', PStr ''192.168.9.9''])"
proof -
  have "initial_data spec_example_loaded = YMap spec_example"
    by (simp add: spec_example_loaded_def)
  moreover have "map_of spec_example ''used_ips''
       = Some (YSeq [YStr ''10.0.0.5,10.0.0.10'', YStr ''192.168.9.9''])"
    by (simp add: spec_example_def)
  ultimately show ?thesis
    using spec_example_orphan spec_example_load lab_submitted lab_saved lab_written by simp
qed

text \<open>
  C2 (amended). After a load, a range that is orphaned in the document is in no block's
  derived list; only the baseline, the raw document itself, still has it. A save that
  succeeds from a screen reached by any mutations hands to the dump, as \<open>used_ips\<close>, the
  ranges of the blocks and no others: none is the orphaned range right after the load, and
  later it is among them only when a block holds it that the loaded document did not declare
  with that cidr.
\<close>

theorem orphaned_range_dropped_from_blocks:
  assumes "load_configs lib (Some (Parsed (YMap d))) s_init = (Loaded, s0)"
    and "orphaned lib d r"
    and "distinct_blocks d"
    and "reachable lib s0 s"
    and "action_save_configs lib disk f s = (Saved out, f', s')"
  shows "(\<forall>(name, data) \<in> set (cidr_networks s0). r \<notin> set (used_ips data))
       \<and> initial_data s0 = YMap d
       \<and> (\<exists>h config_data us.
             f = Some (Objects h config_data) \<and>
             written_used_ips h config_data s = Inr (PList (map PStr us)) \<and>
             us = concat (map (\<lambda>(name, data). used_ips data) (cidr_networks s)) \<and>
             (s = s0 \<longrightarrow> r \<notin> set us) \<and>
             (r \<in> set us \<longrightarrow>
                (\<exists>(name, data) \<in> set (cidr_networks s). r \<in> set (used_ips data) \<and>
                   (\<forall>raw. get_default d ''cidr_networks'' (YMap []) = YMap raw \<longrightarrow>
                      (name, cidr data) \<notin> set raw))))"
proof -
  have absent: "r \<notin> set (current_used_ips (cidr_networks s0))"
    using assms(1,2) by (rule orphan_absent_after_load)
  then have a: "\<forall>(name, data) \<in> set (cidr_networks s0). r \<notin> set (used_ips data)"
    by (auto simp: in_current_used_ips)
  have b: "initial_data s0 = YMap d"
    using load_Loaded [OF assms(1)] by auto
  from assms(1,3) have "ranges_in_blocks lib (cidr_networks s0)"
    by (rule load_establishes_invariant)
  with assms(4) have inv: "ranges_in_blocks lib (cidr_networks s)"
    by (rule reachable_keeps_invariant)
  let ?us = "current_used_ips (cidr_networks s)"
  from save_writes_current_used_ips [OF assms(5)] obtain h config_data where
    f: "f = Some (Objects h config_data)"
    and w: "written_used_ips h config_data s = Inr (PList (map PStr ?us))" by blast
  have c: "\<exists>(name, data) \<in> set (cidr_networks s). r \<in> set (used_ips data) \<and>
             (\<forall>raw. get_default d ''cidr_networks'' (YMap []) = YMap raw \<longrightarrow>
                (name, cidr data) \<notin> set raw)" if "r \<in> set ?us"
  proof -
    from that obtain name data where held: "(name, data) \<in> set (cidr_networks s)"
      "r \<in> set (used_ips data)" by (auto simp: in_current_used_ips)
    have "(name, cidr data) \<notin> set raw"
      if "get_default d ''cidr_networks'' (YMap []) = YMap raw" for raw
      using inv assms(2) held that by (rule holder_not_declared)
    with held show ?thesis by blast
  qed
  have e: "?us = concat (map (\<lambda>(name, data). used_ips data) (cidr_networks s))"
    by (simp add: current_used_ips_def)
  from absent have "s = s0 \<longrightarrow> r \<notin> set ?us" by simp
  with a b f w c e show ?thesis by (metis (no_types, lifting))
qed

theorem orphaned_range_dropped_from_blocks_witness:
  "distinct_blocks spec_example
   \<and> cidr_networks spec_example_loaded
       = [(''mgmt'', \<lparr>cidr = YStr ''10.0.0.0/24'', used_ips = [''10.0.0.5,10.0.0.10'']\<rparr>)]
   \<and> initial_data spec_example_loaded = YMap spec_example
   \<and> action_save_configs ipv4 exact_disk (Some (Objects spec_example_store (PRef 0)))
        spec_example_loaded
       = (Saved Loaded, Some (Objects spec_example_store_saved (PRef 0)), spec_example_saved_screen)
   \<and> written_used_ips spec_example_store (PRef 0) spec_example_loaded
       = Inr (PList [PStr ''10.0.0.5,10.0.0.10''])
   \<and> snd (submit_cidr_form ipv4 ''lab'' ''192.168.9.0/24'' ''192.168.9.9'' spec_example_loaded)
       = lab_screen
   \<and> written_used_ips spec_example_store (PRef 0) lab_screen
       = Inr (PList [PStr ''10.0.0.5,10.0.0.10'', PStr ''192.168.9.9''])
   \<and> get_default spec_example ''cidr_networks'' (YMap [])
       = YMap [(''mgmt'', YStr ''10.0.0.0/24'')]"
proof -
  have db: "distinct_blocks spec_example" by (simp add: distinct_blocks_def spec_example_def)
  have a: "cidr_networks spec_example_loaded
       = [(''mgmt'', \<lparr>cidr = YStr ''10.0.0.0/24'', used_ips = [''10.0.0.5,10.0.0.10'']\<rparr>)]"
    "initial_data spec_example_loaded = YMap spec_example"
    by (simp_all add: spec_example_loaded_def)
  have g: "get_default spec_example ''cidr_networks'' (YMap [])
       = YMap [(''mgmt'', YStr ''10.0.0.0/24'')]"
    by (simp add: get_default_def spec_example_def)
  have l: "snd (submit_cidr_form ipv4 ''lab'' ''192.168.9.0/24'' ''192.168.9.9'' spec_example_loaded)
       = lab_screen" by (simp add: lab_submitted)
  from orphaned_range_dropped_from_blocks
         [OF spec_example_load spec_example_orphan db reachable.start spec_example_save]
  obtain us where
    "written_used_ips spec_example_store (PRef 0) spec_example_loaded = Inr (PList (map PStr us))"
    "us = concat (map (\<lambda>(name, data). used_ips data) (cidr_networks spec_example_loaded))"
    by auto
  then have w: "written_used_ips spec_example_store (PRef 0) spec_example_loaded
       = Inr (PList [PStr ''10.0.0.5,10.0.0.10''])"
    by (simp add: a)
  from db a g l w spec_example_save lab_written show ?thesis by simp
qed

subsection \<open>Saving and loading again\<close>




subsection \<open>The shared mapping of a saved document\<close>

text \<open>
  C3 (the claim as stated fails). The file in which \<open>global_overrides\<close> is an alias of the
  \<open>cidr_networks\<close> mapping loads, and the save from the screen it loads to succeeds; but
  \<open>clear\<close> has removed the entry the statements made under \<open>global_overrides\<close>: in the
  document that was dumped \<open>config_data['global_overrides']['cidr_networks']\<close> raises
  \<open>KeyError\<close>. Where \<open>global_overrides\<close> is an alias of the document itself, the two places
  are one place, and the document dumped has the mapping node of \<open>cidr_networks\<close> under its
  anchor and no alias of it.
\<close>

theorem aliased_global_overrides_not_shared:
  "load_configs ipv4 (Some (parsed (Objects aliased_overrides_store (PRef 0)))) new_screen
     = (Loaded, aliased_overrides_loaded)
   \<and> write_objects aliased_overrides_store (PRef 0) aliased_overrides_loaded
       = Inr (aliased_overrides_saved, dump aliased_overrides_saved (PRef 0))
   \<and> fst (action_save_configs ipv4 exact_disk (Some (Objects aliased_overrides_store (PRef 0)))
            aliased_overrides_loaded) = Saved Loaded
   \<and> fst (snd (action_save_configs ipv4 exact_disk
                  (Some (Objects aliased_overrides_store (PRef 0))) aliased_overrides_loaded))
       = Some (Objects aliased_overrides_saved (PRef 0))
   \<and> getitem aliased_overrides_saved (PRef 0) ''cidr_networks'' = Inr (PRef 1)
   \<and> nested_cidr_networks aliased_overrides_saved (PRef 0) = Inl KeyError
   \<and> write_document self_overrides_store (PRef 0) [(''mgmt'', PStr ''10.0.0.0/24'')]
        (PList []) (PList [])
       = Inr (self_overrides_saved, dump self_overrides_saved (PRef 0))
   \<and> getitem self_overrides_saved (PRef 0) ''cidr_networks'' = Inr (PRef 1)
   \<and> mappings_of 1 (dump self_overrides_saved (PRef 0)) = [Some (''cidr_networks'', True)]
   \<and> aliases_of 1 (dump self_overrides_saved (PRef 0)) = 0"
proof -
  have a: "load_configs ipv4 (Some (parsed (Objects aliased_overrides_store (PRef 0)))) new_screen
     = (Loaded, aliased_overrides_loaded)"
    by (simp only: aliased_overrides_parsed aliased_overrides_load)
  have b: "getitem aliased_overrides_saved (PRef 0) ''cidr_networks'' = Inr (PRef 1)"
    "nested_cidr_networks aliased_overrides_saved (PRef 0) = Inl KeyError"
    by (simp_all add: nested_cidr_networks_def and_then_def getitem_def aliased_overrides_saved_def)
  have c: "write_document self_overrides_store (PRef 0) [(''mgmt'', PStr ''10.0.0.0/24'')]
        (PList []) (PList [])
       = Inr (self_overrides_saved, dump self_overrides_saved (PRef 0))"
    by (simp add: update_defs self_overrides_store_def self_overrides_saved_def)
  have d: "getitem self_overrides_saved (PRef 0) ''cidr_networks'' = Inr (PRef 1)"
    by (simp add: getitem_def self_overrides_saved_def)
  have e: "mappings_of 1 (dump self_overrides_saved (PRef 0)) = [Some (''cidr_networks'', True)]"
    "aliases_of 1 (dump self_overrides_saved (PRef 0)) = 0"
    by (simp_all add: dump_def self_overrides_saved_def)
  from a b c d e aliased_overrides_written aliased_overrides_resaved show ?thesis by simp
qed

text \<open>
  C3 (amended). After a save whose statements all succeed, from a document whose
  \<open>global_overrides\<close> is neither the object under \<open>cidr_networks\<close> nor the document itself,
  \<open>config_data['cidr_networks']\<close> and \<open>config_data['global_overrides']['cidr_networks']\<close> are
  one reference to one object \<open>c\<close>, which carries the anchor \<open>cidr_networks\<close> with
  \<open>always_dump\<close> and holds the blocks of the screen; the document dumped has the mapping
  node of \<open>c\<close> exactly once, under that anchor, and at least one alias of it.
\<close>

theorem saved_cidr_networks_is_one_anchored_object:
  assumes saved: "write_document h config_data new_cidrs new_used_ips pns = Inr (h', doc)"
    and apart: "getitem h config_data ''global_overrides'' \<noteq> getitem h config_data ''cidr_networks''"
    and below: "getitem h config_data ''global_overrides'' \<noteq> Inr config_data"
  shows "\<exists>c. getitem h' config_data ''cidr_networks'' = Inr (PRef c) \<and>
             nested_cidr_networks h' config_data = Inr (PRef c) \<and>
             c < length h' \<and>
             anchor (h' ! c) = Some (''cidr_networks'', True) \<and>
             entries (h' ! c) = dict_of new_cidrs \<and>
             mappings_of c doc = [Some (''cidr_networks'', True)] \<and>
             0 < aliases_of c doc"
proof -
  from saved have upd: "update_objects h config_data new_cidrs new_used_ips pns = Inr h'"
    and doc: "doc = dump h' config_data"
    by (auto simp: write_document_def and_then_Inr)
  from update_objects_shares [OF upd apart] below obtain r g c where
    r: "config_data = PRef r" and lens: "r < length h'" "g < length h'" "c < length h'"
    and ne: "c \<noteq> r" "c \<noteq> g" "g \<noteq> r"
    and rc: "map_of (entries (h' ! r)) ''cidr_networks'' = Some (PRef c)"
    and rg: "map_of (entries (h' ! r)) ''global_overrides'' = Some (PRef g)"
    and gc: "map_of (entries (h' ! g)) ''cidr_networks'' = Some (PRef c)"
    and anc: "anchor (h' ! c) = Some (''cidr_networks'', True)"
    and ent: "entries (h' ! c) = dict_of new_cidrs"
    by blast
  from ne have "r \<noteq> g" by simp
  from dump_shared [OF lens this ne(1) rc rg gc] anc doc r
  have "mappings_of c doc = [Some (''cidr_networks'', True)]" "0 < aliases_of c doc"
    by simp_all
  moreover from lens rc have "getitem h' config_data ''cidr_networks'' = Inr (PRef c)"
    by (simp add: r getitem_def)
  moreover from lens rg gc have "nested_cidr_networks h' config_data = Inr (PRef c)"
    by (simp add: r getitem_def and_then_def nested_cidr_networks_def)
  ultimately show ?thesis using lens(3) anc ent by blast
qed

theorem saved_cidr_networks_is_one_anchored_object_witness:
  "write_document spec_example_store (PRef 0) [(''mgmt'', PStr ''10.0.0.0/24'')]
     (PList [PStr ''10.0.0.5,10.0.0.10'']) (PList [])
     = Inr (spec_example_store_saved, spec_example_dumped)
   \<and> getitem spec_example_store (PRef 0) ''global_overrides''
       \<noteq> getitem spec_example_store (PRef 0) ''cidr_networks''
   \<and> getitem spec_example_store (PRef 0) ''global_overrides'' \<noteq> Inr (PRef 0)
   \<and> getitem spec_example_store_saved (PRef 0) ''cidr_networks'' = Inr (PRef 1)
   \<and> nested_cidr_networks spec_example_store_saved (PRef 0) = Inr (PRef 1)
   \<and> anchor (spec_example_store_saved ! 1) = Some (''cidr_networks'', True)
   \<and> entries (spec_example_store_saved ! 1) = dict_of [(''mgmt'', PStr ''10.0.0.0/24'')]
   \<and> mappings_of 1 spec_example_dumped = [Some (''cidr_networks'', True)]
   \<and> aliases_of 1 spec_example_dumped = 1"
proof -
  have apart: "getitem spec_example_store (PRef 0) ''global_overrides''
      \<noteq> getitem spec_example_store (PRef 0) ''cidr_networks''"
    by (simp add: getitem_def spec_example_store_def)
  have below: "getitem spec_example_store (PRef 0) ''global_overrides'' \<noteq> Inr (PRef 0)"
    by (simp add: getitem_def spec_example_store_def)
  have c: "getitem spec_example_store_saved (PRef 0) ''cidr_networks'' = Inr (PRef 1)"
    by (simp add: getitem_def spec_example_store_saved_def)
  from saved_cidr_networks_is_one_anchored_object [OF spec_example_store_written apart below]
  obtain c' where
    "getitem spec_example_store_saved (PRef 0) ''cidr_networks'' = Inr (PRef c')"
    and rest: "nested_cidr_networks spec_example_store_saved (PRef 0) = Inr (PRef c')"
      "anchor (spec_example_store_saved ! c') = Some (''cidr_networks'', True)"
      "entries (spec_example_store_saved ! c') = dict_of [(''mgmt'', PStr ''10.0.0.0/24'')]"
      "mappings_of c' spec_example_dumped = [Some (''cidr_networks'', True)]"
    by blast
  with c have "c' = 1" by simp
  moreover have "aliases_of 1 spec_example_dumped = 1" by (simp add: spec_example_dumped_def)
  ultimately show ?thesis using rest c apart below spec_example_store_written by simp
qed

end
